theory Spec2Isabelle
  imports Main
begin

section \<open>JavaScript values and property access\<close>

text \<open>
  The dispatcher of \<^verbatim>\<open>src/lib/Dispatcher.js\<close> keeps all of its tables in plain objects
  (\<^verbatim>\<open>{}\<close>) and reads them by indexing. A read of a plain object finds an own property
  first and a property inherited from \<^verbatim>\<open>Object.prototype\<close> second; only when both are
  missing is the result \<^verbatim>\<open>undefined\<close>. The values below are the ones the code can meet:
  the results of \<^verbatim>\<open>JSON.parse\<close> and \<^verbatim>\<open>undefined\<close>. Numbers are the integer-valued
  ones; the code tests them for truthiness and uses them as property keys. A double
  represents every integer up to \<open>2^53\<close> in magnitude.
\<close>

datatype jsval =
    Undefined
  | Null
  | Bool bool
  | Num int
  | Str string
  | Arr "jsval list"
  | Obj "(string \<times> jsval) list"

text \<open>
  How a call ends: it returns, it throws the \<^verbatim>\<open>Error\<close> it made from a message, it throws
  a \<^verbatim>\<open>TypeError\<close>, or control reaches a built-in of the runtime (\<open>Builtin n\<close>: the code
  reads a property of, calls or assigns through the member that plain objects inherit under
  the name \<open>n\<close>, or has the runtime print a number beyond \<open>2^53\<close>), whose behaviour is not
  part of this program. \<open>Throw\<close> also stands for an error that the connection or
  \<^verbatim>\<open>JSON.stringify\<close> throws.
\<close>

datatype 'a completion = Return 'a | Throw string | TypeError | Builtin string

fun truthy :: "jsval \<Rightarrow> bool" where
  "truthy Undefined = False"
| "truthy Null = False"
| "truthy (Bool b) = b"
| "truthy (Num n) = (n \<noteq> 0)"
| "truthy (Str s) = (s \<noteq> [])"
| "truthy (Arr xs) = True"
| "truthy (Obj ps) = True"

text \<open>The property names that every plain object inherits from \<^verbatim>\<open>Object.prototype\<close>.\<close>

definition objectPrototypeNames :: "string list" where
  "objectPrototypeNames =
     [''constructor'', ''__proto__'', ''hasOwnProperty'', ''isPrototypeOf'',
      ''propertyIsEnumerable'', ''toLocaleString'', ''toString'', ''valueOf'',
      ''__defineGetter__'', ''__defineSetter__'', ''__lookupGetter__'', ''__lookupSetter__'']"

definition inherited :: "string \<Rightarrow> bool" where
  "inherited k = (k \<in> set objectPrototypeNames)"

text \<open>\<^verbatim>\<open>o[k]\<close> for a plain object whose own properties are the map \<open>own\<close>: the slot found.\<close>

datatype 'a slot = Own 'a | Inherited string | Absent

definition getSlot :: "(string \<rightharpoonup> 'a) \<Rightarrow> string \<Rightarrow> 'a slot" where
  "getSlot own k =
     (case own k of
        Some v \<Rightarrow> Own v
      | None \<Rightarrow> if inherited k then Inherited k else Absent)"

text \<open>\<^verbatim>\<open>message.f\<close> for one of the envelope's field names (\<^verbatim>\<open>id\<close>, \<^verbatim>\<open>error\<close>,
  \<^verbatim>\<open>result\<close>, \<^verbatim>\<open>method\<close>, \<^verbatim>\<open>params\<close>, \<^verbatim>\<open>message\<close>), none of which is inherited by an
  object, a string, a number, a boolean or an array: reading it from \<^verbatim>\<open>null\<close> or
  \<^verbatim>\<open>undefined\<close> throws, reading it from an object finds the own property, and every other
  value gives \<^verbatim>\<open>undefined\<close>.\<close>

fun field :: "jsval \<Rightarrow> string \<Rightarrow> jsval completion" where
  "field Undefined f = TypeError"
| "field Null f = TypeError"
| "field (Obj ps) f = Return (case map_of ps f of Some v \<Rightarrow> v | None \<Rightarrow> Undefined)"
| "field v f = Return Undefined"

subsection \<open>Property order of an object\<close>

text \<open>
  \<^verbatim>\<open>Object.keys\<close> and \<^verbatim>\<open>Object.entries\<close> list the own properties of an object with the
  array indices first, in ascending numeric order, and the other names after them in the
  order of their creation. An array index is the canonical decimal form of a number below
  \<open>2^32 - 1 = 4294967295\<close>.
\<close>

definition isDigit :: "char \<Rightarrow> bool" where
  "isDigit c = (c \<in> set ''0123456789'')"

definition digitValue :: "char \<Rightarrow> int" where
  "digitValue c = of_char c - 48"

definition decimalValue :: "string \<Rightarrow> int" where
  "decimalValue s = foldl (\<lambda>n c. 10 * n + digitValue c) 0 s"

definition isArrayIndex :: "string \<Rightarrow> bool" where
  "isArrayIndex s =
     (s \<noteq> [] \<and> list_all isDigit s \<and> (s = ''0'' \<or> hd s \<noteq> CHR ''0'')
      \<and> decimalValue s < 4294967295)"

text \<open>Where a new property \<open>k\<close> goes among the existing ones.\<close>

fun insertKey :: "string \<Rightarrow> 'a \<Rightarrow> (string \<times> 'a) list \<Rightarrow> (string \<times> 'a) list" where
  "insertKey k v [] = [(k, v)]"
| "insertKey k v ((k', v') # ps) =
     (if isArrayIndex k \<and> (\<not> isArrayIndex k' \<or> decimalValue k < decimalValue k')
      then (k, v) # (k', v') # ps
      else (k', v') # insertKey k v ps)"

text \<open>
  \<^verbatim>\<open>o[k] = v\<close> on an object whose prototype is \<^verbatim>\<open>Object.prototype\<close>: an existing own
  property keeps its place and takes the new value, a new one is created, and the name
  \<^verbatim>\<open>__proto__\<close> reaches the inherited setter, which creates no own property.
\<close>

definition setOwn :: "string \<Rightarrow> 'a \<Rightarrow> (string \<times> 'a) list \<Rightarrow> (string \<times> 'a) list" where
  "setOwn k v ps =
     (if k = ''__proto__'' then ps
      else if k \<in> fst ` set ps then map (\<lambda>(k', v'). if k' = k then (k', v) else (k', v')) ps
      else insertKey k v ps)"

subsection \<open>Numbers and conversion to a string\<close>

text \<open>
  The largest value that \<^verbatim>\<open>this._id++\<close> reaches: \<open>2^53\<close>. Below it the increment of a
  double adds one; at \<open>2^53\<close> the sum \<open>2^53 + 1\<close> is rounded back to \<open>2^53\<close>.
\<close>

definition maxCounter :: nat where
  "maxCounter = 9007199254740992"

definition increment :: "nat \<Rightarrow> nat" where
  "increment n = (if n < maxCounter then n + 1 else n)"

definition digitChar :: "nat \<Rightarrow> char" where
  "digitChar d = ''0123456789'' ! d"

fun decimal :: "nat \<Rightarrow> string" where
  "decimal n = (if n < 10 then [digitChar n] else decimal (n div 10) @ [digitChar (n mod 10)])"

declare decimal.simps [simp del]

fun joinWith :: "string \<Rightarrow> string list \<Rightarrow> string" where
  "joinWith sep [] = []"
| "joinWith sep [x] = x"
| "joinWith sep (x # y # ys) = x @ sep @ joinWith sep (y # ys)"

text \<open>
  A value used as a property key, or handed to \<^verbatim>\<open>new Error\<close>, is converted to a string.
  A number up to \<open>2^53\<close> in magnitude gives its decimal form; a larger one is printed by the
  runtime, from \<open>10^21\<close> on in exponent form. An array gives its elements' strings joined by
  commas, with \<^verbatim>\<open>null\<close> and \<^verbatim>\<open>undefined\<close> elements empty. An object is converted through
  its \<^verbatim>\<open>toString\<close>: the inherited one gives \<^verbatim>\<open>[object Object]\<close>; an own property of that
  name, which in a parsed message is never a function, is skipped, the inherited
  \<^verbatim>\<open>valueOf\<close> (or an own one, not callable either) yields no primitive, and the conversion
  throws a \<^verbatim>\<open>TypeError\<close>.
\<close>

fun toString :: "jsval \<Rightarrow> string completion"
  and toStrings :: "jsval list \<Rightarrow> string list completion" where
  "toString Undefined = Return ''undefined''"
| "toString Null = Return ''null''"
| "toString (Bool b) = Return (if b then ''true'' else ''false'')"
| "toString (Num n) =
     (if int maxCounter < abs n then Builtin ''Number.prototype.toString''
      else Return (if n < 0 then CHR ''-'' # decimal (nat (- n)) else decimal (nat n)))"
| "toString (Str s) = Return s"
| "toString (Arr xs) =
     (case toStrings xs of
        Return ss \<Rightarrow> Return (joinWith '','' ss)
      | Throw e \<Rightarrow> Throw e
      | TypeError \<Rightarrow> TypeError
      | Builtin n \<Rightarrow> Builtin n)"
| "toString (Obj ps) =
     (if ''toString'' \<in> fst ` set ps then TypeError else Return ''[object Object]'')"
| "toStrings [] = Return []"
| "toStrings (x # xs) =
     (case (case x of Undefined \<Rightarrow> Return [] | Null \<Rightarrow> Return [] | _ \<Rightarrow> toString x) of
        Return s \<Rightarrow>
          (case toStrings xs of
             Return ss \<Rightarrow> Return (s # ss)
           | Throw e \<Rightarrow> Throw e
           | TypeError \<Rightarrow> TypeError
           | Builtin n \<Rightarrow> Builtin n)
      | Throw e \<Rightarrow> Throw e
      | TypeError \<Rightarrow> TypeError
      | Builtin n \<Rightarrow> Builtin n)"

section \<open>The protocol definition\<close>

text \<open>
  The protocol definition handed to the constructor: \<^verbatim>\<open>protocol.domains\<close> is an array of
  domains, each with its name under \<^verbatim>\<open>domain\<close>, its \<^verbatim>\<open>commands\<close> and, optionally, its
  \<^verbatim>\<open>events\<close>; a command has a \<^verbatim>\<open>name\<close> and, optionally, \<^verbatim>\<open>parameters\<close>; a parameter has
  a \<^verbatim>\<open>name\<close> and an \<^verbatim>\<open>optional\<close> field, \<open>Undefined\<close> when absent. A field the source
  compares with \<^verbatim>\<open>undefined\<close> or tests with \<^verbatim>\<open>instanceof Array\<close> is an \<open>option\<close>.
\<close>

record parameter =
  pname :: string
  optional :: jsval

record command =
  cname :: string
  parameters :: "parameter list option"

record event =
  ename :: string

record domainDef =
  domain :: string
  commands :: "command list"
  events :: "event list option"

record protocol =
  domains :: "domainDef list"

type_synonym paramIndex = "(string \<times> parameter) list"
type_synonym commandIndex = "string \<rightharpoonup> paramIndex"
type_synonym parameterMap = "string \<rightharpoonup> commandIndex"

section \<open>The dispatcher\<close>

text \<open>
  The handlers registered for a domain: the array that \<^verbatim>\<open>registerDomainListener\<close> creates,
  or, where the name is an inherited one, the inherited member that the assignment
  \<^verbatim>\<open>this._domainListeners[name] = this._domainListeners[name] || []\<close> stores.
\<close>

datatype 'h listeners = Handlers "'h list" | Member string

text \<open>The request handed to the connection, before \<^verbatim>\<open>JSON.stringify\<close>.\<close>

record envelope =
  env_id :: nat
  env_method :: string
  env_params :: "(string \<times> jsval) list"

text \<open>
  The fields of a \<^verbatim>\<open>Dispatcher\<close>. \<open>connection\<close> holds what has been handed to
  \<^verbatim>\<open>this._connection.send\<close>, oldest first. A resolver or rejector is the callback of the
  promise that \<^verbatim>\<open>send\<close> returned for a request, named by that request's id. The counter
  \<^verbatim>\<open>this._id\<close> is an integer-valued double between 0 and \<open>2^53\<close>.
\<close>

record 'h dispatcher =
  connection :: "envelope list"
  idCounter :: nat
  protocol :: protocol
  resolvers :: "string \<rightharpoonup> nat"
  rejectors :: "string \<rightharpoonup> nat"
  domainListeners :: "string \<rightharpoonup> 'h listeners"
  parameterMap :: parameterMap

subsection \<open>The constructor: the method parameter index\<close>

definition indexParameters :: "parameter list \<Rightarrow> paramIndex" where
  "indexParameters ps = foldl (\<lambda>m p. setOwn (pname p) p m) [] ps"

text \<open>
  \<^verbatim>\<open>that._parameterMap[domain][name] = {}\<close> followed by the loop over the parameters. A
  command or a domain named \<^verbatim>\<open>__proto__\<close> assigns through the inherited setter.
\<close>

fun indexCommands :: "commandIndex \<Rightarrow> command list \<Rightarrow> commandIndex completion" where
  "indexCommands cm [] = Return cm"
| "indexCommands cm (c # cs) =
     (if cname c = ''__proto__'' then Builtin ''__proto__''
      else indexCommands
             (cm(cname c \<mapsto> (case parameters c of None \<Rightarrow> [] | Some ps \<Rightarrow> indexParameters ps)))
             cs)"

fun indexDomains :: "parameterMap \<Rightarrow> domainDef list \<Rightarrow> parameterMap completion" where
  "indexDomains pm [] = Return pm"
| "indexDomains pm (d # ds) =
     (if domain d = ''__proto__'' then Builtin ''__proto__''
      else case indexCommands Map.empty (commands d) of
             Return cm \<Rightarrow> indexDomains (pm(domain d \<mapsto> cm)) ds
           | Throw e \<Rightarrow> Throw e
           | TypeError \<Rightarrow> TypeError
           | Builtin n \<Rightarrow> Builtin n)"

definition Dispatcher :: "protocol \<Rightarrow> 'h dispatcher completion" where
  "Dispatcher p =
     (case indexDomains Map.empty (domains p) of
        Return pm \<Rightarrow>
          Return \<lparr> connection = [], idCounter = 0, protocol = p,
                   resolvers = Map.empty, rejectors = Map.empty,
                   domainListeners = Map.empty, parameterMap = pm \<rparr>
      | Throw e \<Rightarrow> Throw e
      | TypeError \<Rightarrow> TypeError
      | Builtin n \<Rightarrow> Builtin n)"

subsection \<open>Parameter validation\<close>

text \<open>\<^verbatim>\<open>typeof(params[paramName]) === 'undefined'\<close> for the caller's bag, an object given
  by its own properties: an inherited member is a defined value.\<close>

definition paramUndefined :: "(string \<times> jsval) list \<Rightarrow> string \<Rightarrow> bool" where
  "paramUndefined params paramName =
     (case getSlot (map_of params) paramName of
        Own v \<Rightarrow> v = Undefined
      | Inherited n \<Rightarrow> False
      | Absent \<Rightarrow> True)"

definition missingParams :: "paramIndex \<Rightarrow> (string \<times> jsval) list \<Rightarrow> string list" where
  "missingParams knownParams params =
     map fst (filter (\<lambda>(paramName, paramDef).
                        optional paramDef \<noteq> Bool True \<and> paramUndefined params paramName)
                     knownParams)"

text \<open>
  The value of the \<^verbatim>\<open>error\<close> field of what \<^verbatim>\<open>_validateParams\<close> returns: a message,
  or the number 0. Where the namespace is an inherited name, the test
  \<^verbatim>\<open>!this._parameterMap[namespace]\<close> is false and the next line reads a property of that
  built-in. Where the method is an inherited name of the domain's index, \<^verbatim>\<open>knownParams\<close>
  is the inherited member, which has no enumerable own property: \<^verbatim>\<open>Object.keys\<close> of it is
  empty and the validation passes.
\<close>

definition validateParams ::
  "'h dispatcher \<Rightarrow> string \<Rightarrow> string \<Rightarrow> (string \<times> jsval) list \<Rightarrow> jsval completion" where
  "validateParams d namespace method params =
     (case getSlot (parameterMap d) namespace of
        Absent \<Rightarrow> Return (Str (''unknown namespace: '' @ namespace))
      | Inherited n \<Rightarrow> Builtin n
      | Own cm \<Rightarrow>
         (case getSlot cm method of
            Absent \<Rightarrow> Return (Str (''unknown method: '' @ namespace @ ''.'' @ method))
          | Inherited n \<Rightarrow> Return (Num 0)
          | Own knownParams \<Rightarrow>
              if length (map fst knownParams) = 0 then Return (Num 0)
              else if length (missingParams knownParams params) > 0
              then Return (Str (method @ '' requires '' @ [CHR 0x27]
                                @ joinWith '','' (missingParams knownParams params)
                                @ [CHR 0x27] @ '' parameter''))
              else Return (Num 0)))"

subsection \<open>Sending a request\<close>

text \<open>
  What \<^verbatim>\<open>this._connection.send(JSON.stringify(\<dots>))\<close> does with a request: the connection
  takes it, or \<^verbatim>\<open>JSON.stringify\<close> (a bag that refers to itself) or the connection throws
  an error. This is the environment's part of a call of \<^verbatim>\<open>send\<close>.
\<close>

datatype delivery = Accepted | Failed string

text \<open>
  \<^verbatim>\<open>send(namespace, method, params)\<close>: the dispatcher after the call and how the call ended
  (\<open>Throw\<close> is the rejection of the promise that the \<^verbatim>\<open>async\<close> function returns). A failed
  validation throws before anything changes. Otherwise \<^verbatim>\<open>this._id++\<close> comes first: when
  the request is not delivered the id is spent, nothing is handed over and no callback is
  stored.
\<close>

definition send ::
  "'h dispatcher \<Rightarrow> string \<Rightarrow> string \<Rightarrow> (string \<times> jsval) list \<Rightarrow> delivery
     \<Rightarrow> 'h dispatcher \<times> unit completion" where
  "send d namespace method params dl =
     (case validateParams d namespace method params of
        Return e \<Rightarrow>
          if truthy e then
            (case toString e of
               Return msg \<Rightarrow> (d, Throw msg)
             | Throw x \<Rightarrow> (d, Throw x)
             | TypeError \<Rightarrow> (d, TypeError)
             | Builtin n \<Rightarrow> (d, Builtin n))
          else let i = increment (idCounter d) in
            (case dl of
               Failed x \<Rightarrow> (d \<lparr> idCounter := i \<rparr>, Throw x)
             | Accepted \<Rightarrow>
                 (d \<lparr> idCounter := i,
                      connection := connection d @
                        [\<lparr> env_id = i, env_method = namespace @ ''.'' @ method,
                          env_params = params \<rparr>],
                      resolvers := (resolvers d)(decimal i \<mapsto> i),
                      rejectors := (rejectors d)(decimal i \<mapsto> i) \<rparr>,
                  Return ()))
      | Throw e \<Rightarrow> (d, Throw e)
      | TypeError \<Rightarrow> (d, TypeError)
      | Builtin n \<Rightarrow> (d, Builtin n))"

subsection \<open>The inbound router\<close>

text \<open>\<^verbatim>\<open>s.indexOf(c)\<close>, \<^verbatim>\<open>s.substr(start, length)\<close> and \<^verbatim>\<open>s.substr(start)\<close>.\<close>

fun indexOf :: "string \<Rightarrow> char \<Rightarrow> int" where
  "indexOf [] c = - 1"
| "indexOf (x # xs) c = (if x = c then 0 else let i = indexOf xs c in if i < 0 then - 1 else i + 1)"

definition substr :: "string \<Rightarrow> int \<Rightarrow> int \<Rightarrow> string" where
  "substr s start len =
     (let size = int (length s);
          st = (if start < 0 then max (size + start) 0 else min start size);
          l = min (max len 0) (size - st)
      in take (nat l) (drop (nat st) s))"

definition substrFrom :: "string \<Rightarrow> int \<Rightarrow> string" where
  "substrFrom s start = substr s start (int (length s))"

text \<open>What the router does to the outside: it completes a promise or calls a handler.\<close>

datatype 'h effect = Resolve nat jsval | Reject nat jsval | Invoke 'h string jsval

text \<open>
  \<^verbatim>\<open>_handleMessage(message)\<close>, for the value that \<^verbatim>\<open>JSON.parse\<close> returned. Handlers and
  promise callbacks are taken to return normally. A method that is not a string has no
  callable \<^verbatim>\<open>indexOf\<close> or no \<^verbatim>\<open>substr\<close>; an inherited member found where the handlers are
  expected has no \<^verbatim>\<open>forEach\<close>; an inherited member found where a resolver or rejector is
  expected is called. The id is converted to a property key when the table is read, after
  \<^verbatim>\<open>message.error\<close> has been tested; a conversion that throws leaves both tables as they
  are.
\<close>

definition handleMessage ::
  "'h dispatcher \<Rightarrow> jsval \<Rightarrow> ('h effect list \<times> 'h dispatcher) completion" where
  "handleMessage d message =
     (case field message ''id'' of
        Return i \<Rightarrow>
          if truthy i then
            (case field message ''error'' of
               Return err \<Rightarrow>
                 (case toString i of
                    Return k \<Rightarrow>
                      (let d' = d \<lparr> resolvers := (resolvers d)(k := None),
                                     rejectors := (rejectors d)(k := None) \<rparr>
                       in if truthy err then
                            (case getSlot (rejectors d) k of
                               Own r \<Rightarrow>
                                 (case field err ''message'' of
                                    Return m \<Rightarrow> Return ([Reject r m], d')
                                  | Throw e \<Rightarrow> Throw e
                                  | TypeError \<Rightarrow> TypeError
                                  | Builtin n \<Rightarrow> Builtin n)
                             | Inherited n \<Rightarrow> Builtin n
                             | Absent \<Rightarrow> Return ([], d'))
                          else
                            (case getSlot (resolvers d) k of
                               Own r \<Rightarrow>
                                 (case field message ''result'' of
                                    Return v \<Rightarrow> Return ([Resolve r v], d')
                                  | Throw e \<Rightarrow> Throw e
                                  | TypeError \<Rightarrow> TypeError
                                  | Builtin n \<Rightarrow> Builtin n)
                             | Inherited n \<Rightarrow> Builtin n
                             | Absent \<Rightarrow> Return ([], d')))
                  | Throw e \<Rightarrow> Throw e
                  | TypeError \<Rightarrow> TypeError
                  | Builtin n \<Rightarrow> Builtin n)
             | Throw e \<Rightarrow> Throw e
             | TypeError \<Rightarrow> TypeError
             | Builtin n \<Rightarrow> Builtin n)
          else
            (case field message ''method'' of
               Return (Str method) \<Rightarrow>
                 (let dotIndex = indexOf method CHR ''.'';
                      domain = substr method 0 dotIndex;
                      prop = substrFrom method (dotIndex + 1)
                  in case getSlot (domainListeners d) domain of
                       Own (Handlers handlers) \<Rightarrow>
                         (case field message ''params'' of
                            Return ps \<Rightarrow> Return (map (\<lambda>handler. Invoke handler prop ps) handlers, d)
                          | Throw e \<Rightarrow> Throw e
                          | TypeError \<Rightarrow> TypeError
                          | Builtin n \<Rightarrow> Builtin n)
                     | Own (Member n) \<Rightarrow> TypeError
                     | Inherited n \<Rightarrow> TypeError
                     | Absent \<Rightarrow> Return ([], d))
             | Return _ \<Rightarrow> TypeError
             | Throw e \<Rightarrow> Throw e
             | TypeError \<Rightarrow> TypeError
             | Builtin n \<Rightarrow> Builtin n)
      | Throw e \<Rightarrow> Throw e
      | TypeError \<Rightarrow> TypeError
      | Builtin n \<Rightarrow> Builtin n)"

subsection \<open>The listener registry\<close>

text \<open>
  \<^verbatim>\<open>registerDomainListener(name, handler)\<close>: the dispatcher after the call and how the call
  ended. The first line stores the array, or the inherited member where the name is an
  inherited one (for \<^verbatim>\<open>__proto__\<close> the store goes through the setter and changes nothing);
  the second line calls \<^verbatim>\<open>push\<close>, which an inherited member does not have.
\<close>

definition registerDomainListener ::
  "'h dispatcher \<Rightarrow> string \<Rightarrow> 'h \<Rightarrow> 'h dispatcher \<times> unit completion" where
  "registerDomainListener d name handler =
     (let cur = (case getSlot (domainListeners d) name of
                   Own v \<Rightarrow> v
                 | Inherited n \<Rightarrow> Member n
                 | Absent \<Rightarrow> Handlers []);
          d1 = (if name = ''__proto__'' then d
                else d \<lparr> domainListeners := (domainListeners d)(name \<mapsto> cur) \<rparr>)
      in case getSlot (domainListeners d1) name of
           Own (Handlers hs) \<Rightarrow>
             (d1 \<lparr> domainListeners := (domainListeners d1)(name \<mapsto> Handlers (hs @ [handler])) \<rparr>,
              Return ())
         | _ \<Rightarrow> (d1, TypeError))"

subsection \<open>Introspection\<close>

text \<open>\<^verbatim>\<open>getDomainDefinition(name)\<close>: the first domain of that name, or \<^verbatim>\<open>null\<close>.\<close>

fun getDomainDefinitionFrom :: "domainDef list \<Rightarrow> string \<Rightarrow> domainDef option" where
  "getDomainDefinitionFrom [] name = None"
| "getDomainDefinitionFrom (def # defs) name =
     (if domain def = name then Some def else getDomainDefinitionFrom defs name)"

definition getDomainDefinition :: "'h dispatcher \<Rightarrow> string \<Rightarrow> domainDef option" where
  "getDomainDefinition d name = getDomainDefinitionFrom (domains (protocol d)) name"

text \<open>\<^verbatim>\<open>getDomainEventNames(name)\<close>: destructuring \<^verbatim>\<open>null\<close> throws.\<close>

definition getDomainEventNames :: "'h dispatcher \<Rightarrow> string \<Rightarrow> string list completion" where
  "getDomainEventNames d name =
     (case getDomainDefinition d name of
        None \<Rightarrow> TypeError
      | Some def \<Rightarrow>
          (case events def of
             Some evs \<Rightarrow> Return (map ename evs)
           | None \<Rightarrow> Return []))"

subsection \<open>Sequences of calls\<close>

text \<open>
  What a client and the connection do with a dispatcher, one call after the other; a
  \<open>Send\<close> comes with what the connection does with the request. A call that throws leaves
  the dispatcher as the call left it and the run goes on; a call that reaches a built-in
  ends the run there.
\<close>

datatype 'h call =
    Send string string "(string \<times> jsval) list" delivery
  | Message jsval
  | Register string 'h

fun run :: "'h dispatcher \<Rightarrow> 'h call list \<Rightarrow> 'h dispatcher completion" where
  "run d [] = Return d"
| "run d (Send namespace method params dl # cs) =
     (case send d namespace method params dl of
        (d', Builtin n) \<Rightarrow> Builtin n
      | (d', c) \<Rightarrow> run d' cs)"
| "run d (Message message # cs) =
     (case handleMessage d message of
        Return (es, d') \<Rightarrow> run d' cs
      | Throw e \<Rightarrow> run d cs
      | TypeError \<Rightarrow> run d cs
      | Builtin n \<Rightarrow> Builtin n)"
| "run d (Register name handler # cs) = run (fst (registerDomainListener d name handler)) cs"

subsection \<open>A protocol to run the definitions on\<close>

text \<open>
  One domain \<^verbatim>\<open>Page\<close> with the command \<^verbatim>\<open>navigate\<close>, which requires \<^verbatim>\<open>url\<close> and accepts
  \<^verbatim>\<open>referrer\<close>, the command \<^verbatim>\<open>reload\<close> without parameters, and the event \<^verbatim>\<open>loaded\<close>.
\<close>

definition navigate :: command where
  "navigate = \<lparr> cname = ''navigate'',
                 parameters = Some [\<lparr> pname = ''url'', optional = Undefined \<rparr>,
                                    \<lparr> pname = ''referrer'', optional = Bool True \<rparr>] \<rparr>"

definition reload :: command where
  "reload = \<lparr> cname = ''reload'', parameters = None \<rparr>"

definition page :: domainDef where
  "page = \<lparr> domain = ''Page'', commands = [navigate, reload],
             events = Some [\<lparr> ename = ''loaded'' \<rparr>] \<rparr>"

definition pageProtocol :: protocol where
  "pageProtocol = \<lparr> domains = [page] \<rparr>"

text \<open>The dispatcher that the constructor builds for this protocol.\<close>

definition pageDispatcher :: "nat dispatcher" where
  "pageDispatcher =
     \<lparr> connection = [], idCounter = 0, protocol = pageProtocol,
       resolvers = Map.empty, rejectors = Map.empty, domainListeners = Map.empty,
       parameterMap =
         [''Page'' \<mapsto> [''navigate'' \<mapsto> [(''url'', \<lparr> pname = ''url'', optional = Undefined \<rparr>),
                                          (''referrer'', \<lparr> pname = ''referrer'', optional = Bool True \<rparr>)],
                      ''reload'' \<mapsto> []]] \<rparr>"

text \<open>
  A second protocol: one domain \<^verbatim>\<open>Matrix\<close> whose command \<^verbatim>\<open>set\<close> declares the required
  parameters \<^verbatim>\<open>value\<close> and \<^verbatim>\<open>0\<close>, in this order, and the dispatcher built for it.
\<close>

definition setCell :: command where
  "setCell = \<lparr> cname = ''set'',
                parameters = Some [\<lparr> pname = ''value'', optional = Undefined \<rparr>,
                                   \<lparr> pname = ''0'', optional = Undefined \<rparr>] \<rparr>"

definition matrixProtocol :: protocol where
  "matrixProtocol = \<lparr> domains = [\<lparr> domain = ''Matrix'', commands = [setCell], events = None \<rparr>] \<rparr>"

definition matrixDispatcher :: "nat dispatcher" where
  "matrixDispatcher =
     \<lparr> connection = [], idCounter = 0, protocol = matrixProtocol,
       resolvers = Map.empty, rejectors = Map.empty, domainListeners = Map.empty,
       parameterMap =
         [''Matrix'' \<mapsto> [''set'' \<mapsto> [(''0'', \<lparr> pname = ''0'', optional = Undefined \<rparr>),
                                      (''value'', \<lparr> pname = ''value'', optional = Undefined \<rparr>)]]] \<rparr>"

subsection \<open>What a run has registered and issued\<close>

text \<open>The handlers that the calls of a run register under a name, in the order of the
  calls.\<close>

fun registered :: "'h call list \<Rightarrow> string \<Rightarrow> 'h list" where
  "registered [] name = []"
| "registered (Register n handler # cs) name =
     (if n = name then handler # registered cs name else registered cs name)"
| "registered (c # cs) name = registered cs name"

text \<open>The connection took every request of the run.\<close>

fun allAccepted :: "'h call list \<Rightarrow> bool" where
  "allAccepted [] = True"
| "allAccepted (Send namespace method params dl # cs) = (dl = Accepted \<and> allAccepted cs)"
| "allAccepted (c # cs) = allAccepted cs"

text \<open>
  The state of a dispatcher after the calls \<open>calls\<close>. The counter is at most \<open>2^53\<close>. While
  it is below, the ids handed to the connection increase strictly and lie between 1 and the
  counter, and they are \<open>1, 2, \<dots>\<close> up to the counter when the connection took every request.
  A resolver and a rejector are stored together, under the decimal form of an id already
  issued. Under a name that is not inherited, the registry holds the handlers registered
  under it, in order, or nothing when there are none.
\<close>

definition consistent :: "'h call list \<Rightarrow> 'h dispatcher \<Rightarrow> bool" where
  "consistent calls d \<longleftrightarrow>
     idCounter d \<le> maxCounter
     \<and> (idCounter d < maxCounter \<longrightarrow>
          sorted_wrt (<) (map env_id (connection d))
          \<and> (\<forall>x\<in>set (map env_id (connection d)). 0 < x \<and> x \<le> idCounter d))
     \<and> (idCounter d < maxCounter \<and> allAccepted calls \<longrightarrow>
          map env_id (connection d) = [1 ..< Suc (idCounter d)])
     \<and> resolvers d = rejectors d
     \<and> (\<forall>k r. resolvers d k = Some r \<longrightarrow> k = decimal r \<and> 0 < r \<and> r \<le> idCounter d)
     \<and> (\<forall>name. \<not> inherited name \<longrightarrow>
           domainListeners d name =
             (if registered calls name = [] then None
              else Some (Handlers (registered calls name))))"

text \<open>A call that returns.\<close>

fun returns :: "'a completion \<Rightarrow> bool" where
  "returns (Return x) = True"
| "returns c = False"

text \<open>
  The \<^verbatim>\<open>Page\<close> dispatcher after a client has sent \<^verbatim>\<open>Page.reload\<close> and then
  \<^verbatim>\<open>Page.navigate\<close> with a \<^verbatim>\<open>url\<close>, both still pending.
\<close>

definition twoSends :: "nat call list" where
  "twoSends = [Send ''Page'' ''reload'' [] Accepted,
               Send ''Page'' ''navigate'' [(''url'', Str ''http://x'')] Accepted]"

definition pageAfterTwoSends :: "nat dispatcher" where
  "pageAfterTwoSends =
     pageDispatcher
       \<lparr> connection :=
           [\<lparr> env_id = 1, env_method = ''Page.reload'', env_params = [] \<rparr>,
            \<lparr> env_id = 2, env_method = ''Page.navigate'',
              env_params = [(''url'', Str ''http://x'')] \<rparr>],
         idCounter := 2,
         resolvers := [''1'' \<mapsto> 1, ''2'' \<mapsto> 2],
         rejectors := [''1'' \<mapsto> 1, ''2'' \<mapsto> 2] \<rparr>"

text \<open>
  The \<^verbatim>\<open>Page\<close> dispatcher after a client has registered the handlers 10 and 20 for
  \<^verbatim>\<open>Page\<close> and the handler 30 under the empty name.
\<close>

definition pageCalls :: "nat call list" where
  "pageCalls = [Register ''Page'' 10, Register ''Page'' 20, Register [] 30]"

definition pageWithListeners :: "nat dispatcher" where
  "pageWithListeners =
     pageDispatcher
       \<lparr> domainListeners := [''Page'' \<mapsto> Handlers [10, 20], [] \<mapsto> Handlers [30]] \<rparr>"

section \<open>Introspection of the protocol definition\<close>

lemma Dispatcher_pageProtocol: "Dispatcher pageProtocol = Return pageDispatcher"
  by (simp add: Dispatcher_def pageProtocol_def page_def navigate_def reload_def
      pageDispatcher_def indexParameters_def setOwn_def isArrayIndex_def isDigit_def)

lemma getDomainDefinitionFrom_first:
  "\<forall>x\<in>set pre. domain x \<noteq> domain def \<Longrightarrow>
   getDomainDefinitionFrom (pre @ def # post) (domain def) = Some def"
  by (induction pre) auto

text \<open>
  Claim C8. For a domain of the protocol definition (the first one of its name),
  \<^verbatim>\<open>getDomainEventNames\<close> returns the names of the domain's \<^verbatim>\<open>events\<close> in the declared
  order, and the empty sequence when the domain has no \<^verbatim>\<open>events\<close> field; with an empty
  \<^verbatim>\<open>events\<close> array the first case gives the empty sequence.
\<close>

theorem getDomainEventNames_declared:
  assumes "domains (protocol d) = pre @ def # post"
    and "\<forall>x\<in>set pre. domain x \<noteq> domain def"
  shows "getDomainEventNames d (domain def) =
           Return (case events def of None \<Rightarrow> [] | Some evs \<Rightarrow> map ename evs)"
  using assms
  by (simp add: getDomainEventNames_def getDomainDefinition_def
      getDomainDefinitionFrom_first split: option.splits)

theorem getDomainEventNames_declared_witness:
  "domains (protocol pageDispatcher) = [] @ page # []
   \<and> getDomainEventNames pageDispatcher ''Page'' = Return [''loaded'']"
proof -
  have a: "domains (protocol pageDispatcher) = [] @ page # []"
    by (simp add: pageDispatcher_def pageProtocol_def)
  have b: "\<forall>x\<in>set []. domain x \<noteq> domain page"
    by simp
  have "getDomainEventNames pageDispatcher (domain page) =
          Return (case events page of None \<Rightarrow> [] | Some evs \<Rightarrow> map ename evs)"
    using getDomainEventNames_declared [OF a b] .
  then show ?thesis using a b by (simp add: page_def)
qed

section \<open>The parameter index that the constructor builds\<close>

lemma indexCommands_append:
  "indexCommands cm (xs @ ys) =
     (case indexCommands cm xs of Return cm1 \<Rightarrow> indexCommands cm1 ys
      | Throw e \<Rightarrow> Throw e | TypeError \<Rightarrow> TypeError | Builtin n \<Rightarrow> Builtin n)"
  by (induction xs arbitrary: cm) auto

lemma indexCommands_other:
  "indexCommands cm cs = Return cm' \<Longrightarrow> \<forall>x\<in>set cs. cname x \<noteq> k \<Longrightarrow> cm' k = cm k"
  by (induction cs arbitrary: cm) (auto split: if_splits)

lemma indexCommands_last:
  assumes "indexCommands cm (pre @ c # post) = Return cm'"
    and "\<forall>x\<in>set post. cname x \<noteq> cname c"
  shows "cm' (cname c) = Some (case parameters c of None \<Rightarrow> [] | Some ps \<Rightarrow> indexParameters ps)"
proof -
  from assms(1) obtain cm1 where 1: "indexCommands cm pre = Return cm1"
    and 2: "indexCommands cm1 (c # post) = Return cm'"
    by (auto simp: indexCommands_append split: completion.splits)
  from 2 have "indexCommands (cm1(cname c \<mapsto> (case parameters c of None \<Rightarrow> [] | Some ps \<Rightarrow> indexParameters ps))) post = Return cm'"
    by (auto split: if_splits)
  from indexCommands_other [OF this assms(2)] show ?thesis by simp
qed

lemma indexDomains_append:
  "indexDomains pm (xs @ ys) =
     (case indexDomains pm xs of Return pm1 \<Rightarrow> indexDomains pm1 ys
      | Throw e \<Rightarrow> Throw e | TypeError \<Rightarrow> TypeError | Builtin n \<Rightarrow> Builtin n)"
  by (induction xs arbitrary: pm) (auto split: completion.splits)

lemma indexDomains_other:
  "indexDomains pm ds = Return pm' \<Longrightarrow> \<forall>x\<in>set ds. domain x \<noteq> k \<Longrightarrow> pm' k = pm k"
  by (induction ds arbitrary: pm) (auto split: if_splits completion.splits)

lemma indexDomains_last:
  assumes "indexDomains pm (pre @ def # post) = Return pm'"
    and "\<forall>x\<in>set post. domain x \<noteq> domain def"
  shows "\<exists>cm. indexCommands Map.empty (commands def) = Return cm \<and> pm' (domain def) = Some cm"
proof -
  from assms(1) obtain pm1 where 1: "indexDomains pm pre = Return pm1"
    and 2: "indexDomains pm1 (def # post) = Return pm'"
    by (auto simp: indexDomains_append split: completion.splits)
  from 2 obtain cm where 3: "indexCommands Map.empty (commands def) = Return cm"
    and 4: "indexDomains (pm1(domain def \<mapsto> cm)) post = Return pm'"
    by (auto split: if_splits completion.splits)
  from indexDomains_other [OF 4 assms(2)] 3 show ?thesis by simp
qed

lemma parameterMap_declared:
  assumes "Dispatcher p = Return d"
    and "domains p = pre @ def # post" and "\<forall>x\<in>set post. domain x \<noteq> domain def"
    and "commands def = cpre @ c # cpost" and "\<forall>x\<in>set cpost. cname x \<noteq> cname c"
  shows "\<exists>cm. parameterMap d (domain def) = Some cm \<and>
           cm (cname c) = Some (case parameters c of None \<Rightarrow> [] | Some ps \<Rightarrow> indexParameters ps)"
proof -
  from assms(1) obtain pm where pm: "indexDomains Map.empty (domains p) = Return pm"
    and d: "parameterMap d = pm"
    by (auto simp: Dispatcher_def split: completion.splits)
  from indexDomains_last [OF pm [unfolded assms(2)] assms(3)]
  obtain cm where cm: "indexCommands Map.empty (commands def) = Return cm" "pm (domain def) = Some cm"
    by blast
  from indexCommands_last [OF cm(1) [unfolded assms(4)] assms(5)] cm(2) d
  show ?thesis by simp
qed

lemma send_parameterMap: "parameterMap (fst (send d ns m ps dl)) = parameterMap d"
  by (simp add: send_def Let_def split: completion.splits delivery.splits)

lemma handleMessage_parameterMap:
  "handleMessage d msg = Return (es, d') \<Longrightarrow> parameterMap d' = parameterMap d"
  by (auto simp: handleMessage_def Let_def split: completion.splits if_splits slot.splits jsval.splits listeners.splits)

lemma registerDomainListener_parameterMap:
  "parameterMap (fst (registerDomainListener d name h)) = parameterMap d"
  by (auto simp: registerDomainListener_def Let_def split: slot.splits listeners.splits)

lemma run_parameterMap: "run d cs = Return d' \<Longrightarrow> parameterMap d' = parameterMap d"
proof (induction cs arbitrary: d)
  case Nil
  then show ?case by simp
next
  case (Cons c cs)
  show ?case
  proof (cases c)
    case (Send ns m ps dl)
    obtain d1 r where s: "send d ns m ps dl = (d1, r)" by (cases "send d ns m ps dl")
    with Cons.prems Send have "run d1 cs = Return d'"
      by (cases r) simp_all
    from Cons.IH [OF this] send_parameterMap [of d ns m ps dl] s show ?thesis by simp
  next
    case (Message msg)
    with Cons.prems Cons.IH show ?thesis
      by (auto split: completion.splits dest: handleMessage_parameterMap)
  next
    case (Register name h)
    with Cons.prems Cons.IH [of "fst (registerDomainListener d name h)"] show ?thesis
      by (simp add: registerDomainListener_parameterMap)
  qed
qed


section \<open>Validation of a request\<close>

text \<open>
  Claim C5. For a command of the protocol definition whose declared parameters are absent
  or empty (the last command of its name in the last domain of its name, the ones the index
  keeps), \<^verbatim>\<open>_validateParams\<close> answers 0 for every parameter bag, and \<^verbatim>\<open>send\<close> goes on to
  allocate the next id and hand the request to the connection. This holds for the
  dispatcher as constructed and after any sequence of calls.
\<close>

theorem send_no_parameters:
  assumes "Dispatcher p = Return d0" and "run d0 calls = Return d"
    and "domains p = pre @ def # post" and "\<forall>x\<in>set post. domain x \<noteq> domain def"
    and "commands def = cpre @ c # cpost" and "\<forall>x\<in>set cpost. cname x \<noteq> cname c"
    and "parameters c = None \<or> parameters c = Some []"
  shows "validateParams d (domain def) (cname c) params = Return (Num 0)
       \<and> send d (domain def) (cname c) params Accepted =
           (d \<lparr> idCounter := increment (idCounter d),
                connection := connection d @
                  [\<lparr> env_id = increment (idCounter d),
                    env_method = domain def @ ''.'' @ cname c,
                    env_params = params \<rparr>],
                resolvers := (resolvers d)
                  (decimal (increment (idCounter d)) \<mapsto> increment (idCounter d)),
                rejectors := (rejectors d)
                  (decimal (increment (idCounter d)) \<mapsto> increment (idCounter d)) \<rparr>,
            Return ())"
proof -
  from parameterMap_declared [OF assms(1) assms(3-6)] run_parameterMap [OF assms(2)]
  obtain cm where cm: "parameterMap d (domain def) = Some cm"
    and kp: "cm (cname c) = Some (case parameters c of None \<Rightarrow> [] | Some ps \<Rightarrow> indexParameters ps)"
    by auto
  from assms(7) have "(case parameters c of None \<Rightarrow> [] | Some ps \<Rightarrow> indexParameters ps) = []"
    by (auto simp: indexParameters_def)
  with kp have kp': "cm (cname c) = Some []" by simp
  have v: "validateParams d (domain def) (cname c) params = Return (Num 0)"
    by (simp add: validateParams_def getSlot_def cm kp')
  then show ?thesis by (simp add: send_def Let_def)
qed

theorem send_no_parameters_witness:
  "send pageDispatcher ''Page'' ''reload'' [(''ignoreCache'', Bool True)] Accepted =
     (pageDispatcher \<lparr> idCounter := 1,
        connection := [\<lparr> env_id = 1, env_method = ''Page.reload'',
                          env_params = [(''ignoreCache'', Bool True)] \<rparr>],
        resolvers := [decimal 1 \<mapsto> 1], rejectors := [decimal 1 \<mapsto> 1] \<rparr>,
      Return ())"
proof -
  have 1: "(Dispatcher pageProtocol :: nat dispatcher completion) = Return pageDispatcher"
    by (rule Dispatcher_pageProtocol)
  have 2: "run pageDispatcher [] = Return pageDispatcher" by simp
  have 3: "domains pageProtocol = [] @ page # []" by (simp add: pageProtocol_def)
  have 4: "\<forall>x\<in>set []. domain x \<noteq> domain page" by simp
  have 5: "commands page = [navigate] @ reload # []" by (simp add: page_def)
  have 6: "\<forall>x\<in>set []. cname x \<noteq> cname reload" by simp
  have 7: "parameters reload = None \<or> parameters reload = Some []" by (simp add: reload_def)
  have 8: "increment (idCounter pageDispatcher) = 1"
    by (simp add: increment_def maxCounter_def pageDispatcher_def)
  from send_no_parameters [OF 1 2 3 4 5 6 7, of "[(''ignoreCache'', Bool True)]"]
  show ?thesis unfolding 8 by (simp add: page_def reload_def pageDispatcher_def)
qed


text \<open>
  Unknown names that are not inherited are refused, before anything else happens. A
  namespace that the index does not hold and that is not a
  name inherited from \<^verbatim>\<open>Object.prototype\<close> is refused with \<^verbatim>\<open>unknown namespace\<close>; in a
  domain of the index, a method that the domain does not hold and that is not an inherited
  name is refused with \<^verbatim>\<open>unknown method\<close>. In both cases the call throws before
  \<^verbatim>\<open>this._id++\<close> and before the connection is used: the dispatcher after the call is the
  dispatcher before it.
\<close>

lemma send_unknown_names:
  "(parameterMap d namespace = None \<and> \<not> inherited namespace \<longrightarrow>
      send d namespace method params dl = (d, Throw (''unknown namespace: '' @ namespace))
      \<and> run d [Send namespace method params dl] = Return d)
   \<and> (parameterMap d namespace = Some cm \<and> cm method = None \<and> \<not> inherited method \<longrightarrow>
      send d namespace method params dl =
        (d, Throw (''unknown method: '' @ namespace @ ''.'' @ method))
      \<and> run d [Send namespace method params dl] = Return d)"
  by (simp add: send_def validateParams_def getSlot_def)

lemma send_unknown_names_example:
  "send pageDispatcher ''Network'' ''enable'' [] Accepted =
     (pageDispatcher, Throw ''unknown namespace: Network'')
   \<and> run pageDispatcher [Send ''Network'' ''enable'' [] Accepted] = Return pageDispatcher
   \<and> send pageDispatcher ''Page'' ''close'' [] Accepted =
     (pageDispatcher, Throw ''unknown method: Page.close'')
   \<and> run pageDispatcher [Send ''Page'' ''close'' [] Accepted] = Return pageDispatcher"
proof -
  have 1: "parameterMap pageDispatcher ''Network'' = None \<and> \<not> inherited ''Network''"
    by (simp add: pageDispatcher_def inherited_def objectPrototypeNames_def)
  have 2: "parameterMap pageDispatcher ''Page'' = Some (the (parameterMap pageDispatcher ''Page''))
         \<and> the (parameterMap pageDispatcher ''Page'') ''close'' = None \<and> \<not> inherited ''close''"
    by (simp add: pageDispatcher_def inherited_def objectPrototypeNames_def)
  from send_unknown_names [of pageDispatcher "''Network''" "''enable''" "[]" Accepted] 1
    send_unknown_names [of pageDispatcher "''Page''" "''close''" "[]" Accepted
      "the (parameterMap pageDispatcher ''Page'')"] 2
  show ?thesis by simp
qed

text \<open>
  Claim C3 says that a command absent from its domain is refused with \<^verbatim>\<open>unknown method\<close>
  before an id is allocated and before the connection is used. The code misses the names
  that a plain object inherits: \<^verbatim>\<open>Page\<close> has no command \<^verbatim>\<open>toString\<close>, but
  \<^verbatim>\<open>this._parameterMap['Page']['toString']\<close> is the inherited function, which is truthy and
  has no enumerable key, so the request takes the branch commented \<^verbatim>\<open>method does not
  require any arguments\<close>, passes validation, takes the id 1 and is handed to the connection.
\<close>

theorem send_inherited_method_accepted:
  "parameterMap pageDispatcher ''Page'' =
     Some [''navigate'' \<mapsto> [(''url'', \<lparr> pname = ''url'', optional = Undefined \<rparr>),
                              (''referrer'', \<lparr> pname = ''referrer'', optional = Bool True \<rparr>)],
           ''reload'' \<mapsto> []]
   \<and> [''navigate'' \<mapsto> [(''url'', \<lparr> pname = ''url'', optional = Undefined \<rparr>),
                         (''referrer'', \<lparr> pname = ''referrer'', optional = Bool True \<rparr>)],
       ''reload'' \<mapsto> []] ''toString'' = None
   \<and> send pageDispatcher ''Page'' ''toString'' [] Accepted =
       (pageDispatcher \<lparr> idCounter := 1,
          connection := [\<lparr> env_id = 1, env_method = ''Page.toString'', env_params = [] \<rparr>],
          resolvers := [decimal 1 \<mapsto> 1], rejectors := [decimal 1 \<mapsto> 1] \<rparr>,
        Return ())"
  by (simp add: send_def validateParams_def getSlot_def pageDispatcher_def inherited_def
      objectPrototypeNames_def increment_def maxCounter_def)


lemma insertKey_plain: "\<not> isArrayIndex k \<Longrightarrow> insertKey k v ps = ps @ [(k, v)]"
  by (induction ps) auto

lemma foldl_setOwn_plain:
  assumes "distinct (map pname ps)"
    and "\<forall>q\<in>set ps. \<not> isArrayIndex (pname q) \<and> pname q \<noteq> ''__proto__''"
    and "\<forall>q\<in>set ps. pname q \<notin> fst ` set acc"
  shows "foldl (\<lambda>m p. setOwn (pname p) p m) acc ps = acc @ map (\<lambda>q. (pname q, q)) ps"
  using assms
proof (induction ps arbitrary: acc)
  case Nil
  then show ?case by simp
next
  case (Cons q ps)
  have step: "setOwn (pname q) q acc = acc @ [(pname q, q)]"
    using Cons.prems by (simp add: setOwn_def insertKey_plain)
  have "\<forall>r\<in>set ps. pname r \<notin> fst ` set (acc @ [(pname q, q)])"
    using Cons.prems by (auto simp: image_iff)
  with Cons.IH [of "acc @ [(pname q, q)]"] Cons.prems step show ?case by simp
qed

lemma indexParameters_plain:
  assumes "distinct (map pname ps)"
    and "\<forall>q\<in>set ps. \<not> isArrayIndex (pname q) \<and> pname q \<noteq> ''__proto__''"
  shows "indexParameters ps = map (\<lambda>q. (pname q, q)) ps"
  using foldl_setOwn_plain [OF assms, of "[]"] by (simp add: indexParameters_def)

lemma missingParams_plain:
  assumes "\<forall>q\<in>set ps. \<not> inherited (pname q)"
  shows "missingParams (map (\<lambda>q. (pname q, q)) ps) params =
         map pname (filter (\<lambda>q. optional q \<noteq> Bool True \<and>
                 (map_of params (pname q) = None \<or> map_of params (pname q) = Some Undefined)) ps)"
  using assms
  by (induction ps) (auto simp: missingParams_def paramUndefined_def getSlot_def split: option.splits)

lemma proto_inherited: "inherited ''__proto__''"
  by (simp add: inherited_def objectPrototypeNames_def)

text \<open>
  Claim C4, as the code has it. Take a command of the protocol definition whose declared
  parameter names are distinct, none of them an array index and none a name inherited from
  \<^verbatim>\<open>Object.prototype\<close>. When the bag leaves some declared parameter whose \<^verbatim>\<open>optional\<close> is
  not \<^verbatim>\<open>true\<close> unbound or bound to \<^verbatim>\<open>undefined\<close>, \<^verbatim>\<open>send\<close> throws with the message
  \<^verbatim>\<open><command> requires '<names>' parameter\<close>, where the names are exactly those missing
  ones, joined by commas, in the declared order.
\<close>

theorem send_missing_parameters:
  assumes "Dispatcher p = Return d0" and "run d0 calls = Return d"
    and "domains p = pre @ def # post" and "\<forall>x\<in>set post. domain x \<noteq> domain def"
    and "commands def = cpre @ c # cpost" and "\<forall>x\<in>set cpost. cname x \<noteq> cname c"
    and "parameters c = Some ps" and "distinct (map pname ps)"
    and "\<forall>q\<in>set ps. \<not> isArrayIndex (pname q) \<and> \<not> inherited (pname q)"
    and "missing = map pname (filter (\<lambda>q. optional q \<noteq> Bool True \<and>
                 (map_of params (pname q) = None \<or> map_of params (pname q) = Some Undefined)) ps)"
    and "missing \<noteq> []"
  shows "send d (domain def) (cname c) params dl =
           (d, Throw (cname c @ '' requires '' @ [CHR 0x27] @ joinWith '','' missing @ [CHR 0x27]
                      @ '' parameter''))"
proof -
  from parameterMap_declared [OF assms(1) assms(3-6)] run_parameterMap [OF assms(2)] assms(7)
  obtain cm where cm: "parameterMap d (domain def) = Some cm"
    and kp: "cm (cname c) = Some (indexParameters ps)"
    by auto
  have plain: "\<forall>q\<in>set ps. \<not> isArrayIndex (pname q) \<and> pname q \<noteq> ''__proto__''"
    using assms(9) proto_inherited by auto
  have ix: "indexParameters ps = map (\<lambda>q. (pname q, q)) ps"
    by (rule indexParameters_plain [OF assms(8) plain])
  have ni: "\<forall>q\<in>set ps. \<not> inherited (pname q)"
    using assms(9) by simp
  have ms: "missingParams (indexParameters ps) params = missing"
    unfolding ix assms(10) by (rule missingParams_plain [OF ni])
  from assms(10,11) have ne: "ps \<noteq> []" by auto
  have "validateParams d (domain def) (cname c) params =
          Return (Str (cname c @ '' requires '' @ [CHR 0x27] @ joinWith '','' missing @ [CHR 0x27]
                  @ '' parameter''))"
    using ne assms(11) by (simp add: validateParams_def getSlot_def cm kp ms) (simp add: ix)
  then show ?thesis by (simp add: send_def)
qed


theorem send_missing_parameters_witness:
  "send pageDispatcher ''Page'' ''navigate'' [(''referrer'', Str ''http://y'')] Accepted =
     (pageDispatcher,
      Throw (''navigate requires '' @ [CHR 0x27] @ ''url'' @ [CHR 0x27] @ '' parameter''))"
proof -
  have 1: "(Dispatcher pageProtocol :: nat dispatcher completion) = Return pageDispatcher"
    by (rule Dispatcher_pageProtocol)
  have 2: "run pageDispatcher [] = Return pageDispatcher" by simp
  have 3: "domains pageProtocol = [] @ page # []" by (simp add: pageProtocol_def)
  have 4: "\<forall>x\<in>set []. domain x \<noteq> domain page" by simp
  have 5: "commands page = [] @ navigate # [reload]" by (simp add: page_def)
  have 6: "\<forall>x\<in>set [reload]. cname x \<noteq> cname navigate" by (simp add: reload_def navigate_def)
  have 7: "parameters navigate = Some [\<lparr> pname = ''url'', optional = Undefined \<rparr>,
                                    \<lparr> pname = ''referrer'', optional = Bool True \<rparr>]"
    by (simp add: navigate_def)
  have 8: "distinct (map pname [\<lparr> pname = ''url'', optional = Undefined \<rparr>,
                                    \<lparr> pname = ''referrer'', optional = Bool True \<rparr>])"
    by simp
  have 9: "\<forall>q\<in>set [\<lparr> pname = ''url'', optional = Undefined \<rparr>,
                    \<lparr> pname = ''referrer'', optional = Bool True \<rparr>].
             \<not> isArrayIndex (pname q) \<and> \<not> inherited (pname q)"
    by (simp add: isArrayIndex_def isDigit_def inherited_def objectPrototypeNames_def)
  have 10: "[''url''] = map pname (filter (\<lambda>q. optional q \<noteq> Bool True \<and>
                 (map_of [(''referrer'', Str ''http://y'')] (pname q) = None
                  \<or> map_of [(''referrer'', Str ''http://y'')] (pname q) = Some Undefined))
               [\<lparr> pname = ''url'', optional = Undefined \<rparr>,
                \<lparr> pname = ''referrer'', optional = Bool True \<rparr>])"
    by simp
  have 11: "[''url''] \<noteq> []" by simp
  from send_missing_parameters [OF 1 2 3 4 5 6 7 8 9 10 11]
  show ?thesis by (simp add: page_def navigate_def)
qed

text \<open>
  Claim C4 fails on the order when a parameter name is an array index: \<^verbatim>\<open>Object.entries\<close>
  lists such names first. The command declares \<^verbatim>\<open>value\<close> before \<^verbatim>\<open>0\<close>; with an empty bag
  the message names \<^verbatim>\<open>0\<close> before \<^verbatim>\<open>value\<close>.
\<close>

theorem send_missing_order_counterexample:
  "Dispatcher matrixProtocol = Return matrixDispatcher
   \<and> send matrixDispatcher ''Matrix'' ''set'' [] Accepted =
       (matrixDispatcher,
        Throw (''set requires '' @ [CHR 0x27] @ ''0,value'' @ [CHR 0x27] @ '' parameter''))"
  by (simp add: Dispatcher_def matrixProtocol_def setCell_def matrixDispatcher_def
      indexParameters_def setOwn_def isArrayIndex_def isDigit_def decimalValue_def
      digitValue_def send_def validateParams_def getSlot_def missingParams_def
      paramUndefined_def inherited_def objectPrototypeNames_def)


section \<open>The state of a dispatcher after a run\<close>

lemma registered_append:
  "registered (xs @ ys) name = registered xs name @ registered ys name"
  by (induction xs name rule: registered.induct) auto

lemma decimal_digits: "set (decimal n) \<subseteq> set ''0123456789''"
proof (induction n rule: decimal.induct)
  case (1 n)
  have d: "\<And>k. k < 10 \<Longrightarrow> digitChar k \<in> set ''0123456789''"
    unfolding digitChar_def by (rule nth_mem) simp
  show ?case
  proof (cases "n < 10")
    case True
    then show ?thesis using d [of n] by (subst decimal.simps) simp
  next
    case False
    have "n mod 10 < 10" by simp
    with 1 False d [of "n mod 10"] show ?thesis
      by (subst decimal.simps) auto
  qed
qed

lemma decimal_not_inherited: "\<not> inherited (decimal n)"
proof
  assume "inherited (decimal n)"
  then have "decimal n \<in> set objectPrototypeNames" by (simp add: inherited_def)
  moreover have "\<forall>k\<in>set objectPrototypeNames. \<not> set k \<subseteq> set ''0123456789''"
    by (simp add: objectPrototypeNames_def)
  ultimately show False using decimal_digits [of n] by blast
qed

lemma allAccepted_append: "allAccepted (xs @ ys) = (allAccepted xs \<and> allAccepted ys)"
  by (induction xs rule: allAccepted.induct) auto

lemma consistent_initial: "Dispatcher p = Return d \<Longrightarrow> consistent [] d"
  by (auto simp: Dispatcher_def consistent_def split: completion.splits)

lemma send_cases:
  "send d ns m ps dl = (d, Throw (''unknown namespace: '' @ ns))
   \<or> send d ns m ps dl = (d, Throw (''unknown method: '' @ ns @ ''.'' @ m))
   \<or> (\<exists>e. send d ns m ps dl = (d, Throw e) \<and> validateParams d ns m ps = Return (Str e))
   \<or> (\<exists>n. send d ns m ps dl = (d, Builtin n))
   \<or> (\<exists>x. dl = Failed x \<and> validateParams d ns m ps = Return (Num 0)
         \<and> send d ns m ps dl = (d \<lparr> idCounter := increment (idCounter d) \<rparr>, Throw x))
   \<or> (dl = Accepted \<and> validateParams d ns m ps = Return (Num 0)
         \<and> send d ns m ps dl =
             (d \<lparr> idCounter := increment (idCounter d),
                  connection := connection d @
                    [\<lparr> env_id = increment (idCounter d), env_method = ns @ ''.'' @ m,
                      env_params = ps \<rparr>],
                  resolvers := (resolvers d)
                    (decimal (increment (idCounter d)) \<mapsto> increment (idCounter d)),
                  rejectors := (rejectors d)
                    (decimal (increment (idCounter d)) \<mapsto> increment (idCounter d)) \<rparr>,
              Return ()))"
  by (cases dl)
     (auto simp: send_def validateParams_def Let_def split: slot.splits)

lemma send_Return:
  assumes "send d ns m ps dl = (d', Return ())"
  shows "dl = Accepted
       \<and> d' = d \<lparr> idCounter := increment (idCounter d),
                   connection := connection d @
                     [\<lparr> env_id = increment (idCounter d), env_method = ns @ ''.'' @ m,
                       env_params = ps \<rparr>],
                   resolvers := (resolvers d)
                     (decimal (increment (idCounter d)) \<mapsto> increment (idCounter d)),
                   rejectors := (rejectors d)
                     (decimal (increment (idCounter d)) \<mapsto> increment (idCounter d)) \<rparr>"
  using send_cases [of d ns m ps dl] assms by auto

lemma consistentI:
  assumes "idCounter d \<le> maxCounter"
    and "idCounter d < maxCounter \<Longrightarrow> sorted_wrt (<) (map env_id (connection d))"
    and "\<And>x. idCounter d < maxCounter \<Longrightarrow> x \<in> set (map env_id (connection d)) \<Longrightarrow>
           0 < x \<and> x \<le> idCounter d"
    and "idCounter d < maxCounter \<Longrightarrow> allAccepted calls \<Longrightarrow>
           map env_id (connection d) = [1 ..< Suc (idCounter d)]"
    and "resolvers d = rejectors d"
    and "\<And>k r. resolvers d k = Some r \<Longrightarrow> k = decimal r \<and> 0 < r \<and> r \<le> idCounter d"
    and "\<And>name. \<not> inherited name \<Longrightarrow> domainListeners d name =
           (if registered calls name = [] then None else Some (Handlers (registered calls name)))"
  shows "consistent calls d"
  unfolding consistent_def using assms by blast

lemma consistentD:
  assumes "consistent calls d"
  shows "idCounter d \<le> maxCounter"
    and "idCounter d < maxCounter \<Longrightarrow> sorted_wrt (<) (map env_id (connection d))"
    and "\<And>x. idCounter d < maxCounter \<Longrightarrow> x \<in> set (map env_id (connection d)) \<Longrightarrow>
           0 < x \<and> x \<le> idCounter d"
    and "idCounter d < maxCounter \<Longrightarrow> allAccepted calls \<Longrightarrow>
           map env_id (connection d) = [1 ..< Suc (idCounter d)]"
    and "resolvers d = rejectors d"
    and "\<And>k r. resolvers d k = Some r \<Longrightarrow> k = decimal r \<and> 0 < r \<and> r \<le> idCounter d"
    and "\<And>name. \<not> inherited name \<Longrightarrow> domainListeners d name =
           (if registered calls name = [] then None else Some (Handlers (registered calls name)))"
  using assms unfolding consistent_def by blast+

lemma increment_le: "n \<le> increment n"
  by (simp add: increment_def)

lemma increment_below:
  "increment n < maxCounter \<Longrightarrow> n < maxCounter \<and> increment n = Suc n"
  by (simp add: increment_def split: if_splits)

lemma increment_positive: "0 < increment n"
  by (auto simp: increment_def maxCounter_def)

lemma increment_bounded: "n \<le> maxCounter \<Longrightarrow> increment n \<le> maxCounter"
  by (simp add: increment_def)

lemma consistent_step:
  assumes c: "consistent pre d"
    and i: "idCounter d' = idCounter d" and s: "connection d' = connection d"
    and e: "resolvers d' = rejectors d'"
    and r: "\<And>k r. resolvers d' k = Some r \<Longrightarrow> resolvers d k = Some r"
    and l: "\<And>name. \<not> inherited name \<Longrightarrow> domainListeners d' name =
           (if registered (pre @ [c]) name = [] then None
            else Some (Handlers (registered (pre @ [c]) name)))"
  shows "consistent (pre @ [c]) d'"
proof (rule consistentI)
  show "idCounter d' \<le> maxCounter"
    unfolding i by (rule consistentD(1) [OF c])
  show "idCounter d' < maxCounter \<Longrightarrow> sorted_wrt (<) (map env_id (connection d'))"
    unfolding i s by (rule consistentD(2) [OF c])
  show "\<And>x. idCounter d' < maxCounter \<Longrightarrow> x \<in> set (map env_id (connection d')) \<Longrightarrow>
           0 < x \<and> x \<le> idCounter d'"
    unfolding i s by (rule consistentD(3) [OF c])
  show "idCounter d' < maxCounter \<Longrightarrow> allAccepted (pre @ [c]) \<Longrightarrow>
           map env_id (connection d') = [1 ..< Suc (idCounter d')]"
    unfolding i s using consistentD(4) [OF c] by (simp add: allAccepted_append)
  show "resolvers d' = rejectors d'" by (rule e)
  show "\<And>k r. resolvers d' k = Some r \<Longrightarrow> k = decimal r \<and> 0 < r \<and> r \<le> idCounter d'"
    unfolding i using r consistentD(6) [OF c] by blast
  show "\<And>name. \<not> inherited name \<Longrightarrow> domainListeners d' name =
           (if registered (pre @ [c]) name = [] then None
            else Some (Handlers (registered (pre @ [c]) name)))"
    by (rule l)
qed

lemma consistent_unchanged:
  assumes "consistent pre d" and "\<And>name. registered (pre @ [c]) name = registered pre name"
  shows "consistent (pre @ [c]) d"
proof (rule consistent_step [OF assms(1)])
  show "resolvers d = rejectors d" by (rule consistentD(5) [OF assms(1)])
  show "\<And>name. \<not> inherited name \<Longrightarrow> domainListeners d name =
           (if registered (pre @ [c]) name = [] then None
            else Some (Handlers (registered (pre @ [c]) name)))"
    unfolding assms(2) by (rule consistentD(7) [OF assms(1)])
qed simp_all

lemma consistent_spent:
  assumes c: "consistent pre d"
  shows "consistent (pre @ [Send ns m ps (Failed x)]) (d \<lparr> idCounter := increment (idCounter d) \<rparr>)"
proof (rule consistentI)
  let ?d = "d \<lparr> idCounter := increment (idCounter d) \<rparr>"
  have i: "idCounter ?d = increment (idCounter d)" by simp
  have s: "connection ?d = connection d" by simp
  show "idCounter ?d \<le> maxCounter"
    unfolding i by (rule increment_bounded [OF consistentD(1) [OF c]])
  show "idCounter ?d < maxCounter \<Longrightarrow> sorted_wrt (<) (map env_id (connection ?d))"
    unfolding i s using increment_below consistentD(2) [OF c] by blast
  show "\<And>y. idCounter ?d < maxCounter \<Longrightarrow> y \<in> set (map env_id (connection ?d)) \<Longrightarrow>
           0 < y \<and> y \<le> idCounter ?d"
  proof -
    fix y assume "idCounter ?d < maxCounter" and y: "y \<in> set (map env_id (connection ?d))"
    then have "idCounter d < maxCounter" using increment_below by simp
    from consistentD(3) [OF c this, of y] y increment_le [of "idCounter d"]
    show "0 < y \<and> y \<le> idCounter ?d" by simp
  qed
  show "idCounter ?d < maxCounter \<Longrightarrow> allAccepted (pre @ [Send ns m ps (Failed x)]) \<Longrightarrow>
           map env_id (connection ?d) = [1 ..< Suc (idCounter ?d)]"
    by (simp add: allAccepted_append)
  show "resolvers ?d = rejectors ?d"
    using consistentD(5) [OF c] by simp
  show "\<And>k r. resolvers ?d k = Some r \<Longrightarrow> k = decimal r \<and> 0 < r \<and> r \<le> idCounter ?d"
  proof -
    fix k r assume "resolvers ?d k = Some r"
    then have "resolvers d k = Some r" by simp
    from consistentD(6) [OF c this] increment_le [of "idCounter d"]
    show "k = decimal r \<and> 0 < r \<and> r \<le> idCounter ?d" by simp
  qed
  show "\<And>name. \<not> inherited name \<Longrightarrow> domainListeners ?d name =
           (if registered (pre @ [Send ns m ps (Failed x)]) name = [] then None
            else Some (Handlers (registered (pre @ [Send ns m ps (Failed x)]) name)))"
    using consistentD(7) [OF c] by (simp add: registered_append)
qed

lemma consistent_sent:
  assumes c: "consistent pre d"
  shows "consistent (pre @ [Send ns m ps Accepted])
           (d \<lparr> idCounter := increment (idCounter d),
                connection := connection d @
                  [\<lparr> env_id = increment (idCounter d), env_method = ns @ ''.'' @ m,
                    env_params = ps \<rparr>],
                resolvers := (resolvers d)
                  (decimal (increment (idCounter d)) \<mapsto> increment (idCounter d)),
                rejectors := (rejectors d)
                  (decimal (increment (idCounter d)) \<mapsto> increment (idCounter d)) \<rparr>)"
    (is "consistent ?calls ?d")
proof (rule consistentI)
  have i: "idCounter ?d = increment (idCounter d)" by simp
  have s: "map env_id (connection ?d) = map env_id (connection d) @ [increment (idCounter d)]"
    by simp
  have rs: "resolvers ?d =
      (resolvers d)(decimal (increment (idCounter d)) \<mapsto> increment (idCounter d))"
    by simp
  show "idCounter ?d \<le> maxCounter"
    unfolding i by (rule increment_bounded [OF consistentD(1) [OF c]])
  show "idCounter ?d < maxCounter \<Longrightarrow> sorted_wrt (<) (map env_id (connection ?d))"
  proof -
    assume "idCounter ?d < maxCounter"
    then have b: "idCounter d < maxCounter" and e: "increment (idCounter d) = Suc (idCounter d)"
      using increment_below [of "idCounter d"] by simp_all
    have "\<forall>y\<in>set (map env_id (connection d)). y < Suc (idCounter d)"
      using consistentD(3) [OF c b] by fastforce
    with consistentD(2) [OF c b]
    show "sorted_wrt (<) (map env_id (connection ?d))"
      unfolding s e by (simp add: sorted_wrt_append)
  qed
  show "\<And>y. idCounter ?d < maxCounter \<Longrightarrow> y \<in> set (map env_id (connection ?d)) \<Longrightarrow>
           0 < y \<and> y \<le> idCounter ?d"
  proof -
    fix y assume "idCounter ?d < maxCounter" and y: "y \<in> set (map env_id (connection ?d))"
    then have b: "idCounter d < maxCounter" using increment_below [of "idCounter d"] by simp
    from y have "y \<in> set (map env_id (connection d)) \<or> y = increment (idCounter d)"
      unfolding s by auto
    then show "0 < y \<and> y \<le> idCounter ?d"
    proof
      assume "y \<in> set (map env_id (connection d))"
      from consistentD(3) [OF c b this] increment_le [of "idCounter d"]
      show ?thesis unfolding i by simp
    next
      assume "y = increment (idCounter d)"
      then show ?thesis unfolding i using increment_positive [of "idCounter d"] by simp
    qed
  qed
  show "idCounter ?d < maxCounter \<Longrightarrow> allAccepted ?calls \<Longrightarrow>
           map env_id (connection ?d) = [1 ..< Suc (idCounter ?d)]"
  proof -
    assume "idCounter ?d < maxCounter" and a: "allAccepted ?calls"
    then have b: "idCounter d < maxCounter" and e: "increment (idCounter d) = Suc (idCounter d)"
      using increment_below [of "idCounter d"] by simp_all
    from a have "allAccepted pre" by (simp add: allAccepted_append)
    from consistentD(4) [OF c b this]
    show "map env_id (connection ?d) = [1 ..< Suc (idCounter ?d)]"
      unfolding s i e by simp
  qed
  show "resolvers ?d = rejectors ?d"
    using consistentD(5) [OF c] by simp
  show "\<And>k r. resolvers ?d k = Some r \<Longrightarrow> k = decimal r \<and> 0 < r \<and> r \<le> idCounter ?d"
  proof -
    fix k r assume h: "resolvers ?d k = Some r"
    show "k = decimal r \<and> 0 < r \<and> r \<le> idCounter ?d"
    proof (cases "k = decimal (increment (idCounter d))")
      case True
      with h have "r = increment (idCounter d)" unfolding rs by simp
      with True increment_positive [of "idCounter d"] show ?thesis unfolding i by simp
    next
      case False
      with h have "resolvers d k = Some r" unfolding rs by simp
      from consistentD(6) [OF c this] increment_le [of "idCounter d"]
      show ?thesis unfolding i by simp
    qed
  qed
  show "\<And>name. \<not> inherited name \<Longrightarrow> domainListeners ?d name =
           (if registered ?calls name = [] then None
            else Some (Handlers (registered ?calls name)))"
    using consistentD(7) [OF c] by (simp add: registered_append)
qed

lemma consistent_send:
  assumes "consistent pre d"
  shows "consistent (pre @ [Send ns m ps dl]) (fst (send d ns m ps dl))"
proof -
  have reg: "\<And>name. registered (pre @ [Send ns m ps dl]) name = registered pre name"
    by (simp add: registered_append)
  note u = consistent_unchanged [OF assms reg]
  from send_cases [of d ns m ps dl] show ?thesis
  proof (elim disjE exE conjE)
    fix x
    assume "dl = Failed x" and "send d ns m ps dl = (d \<lparr> idCounter := increment (idCounter d) \<rparr>, Throw x)"
    with consistent_spent [OF assms, of ns m ps x] show ?thesis by simp
  next
    assume "dl = Accepted" and "send d ns m ps dl =
             (d \<lparr> idCounter := increment (idCounter d),
                  connection := connection d @
                    [\<lparr> env_id = increment (idCounter d), env_method = ns @ ''.'' @ m,
                      env_params = ps \<rparr>],
                  resolvers := (resolvers d)
                    (decimal (increment (idCounter d)) \<mapsto> increment (idCounter d)),
                  rejectors := (rejectors d)
                    (decimal (increment (idCounter d)) \<mapsto> increment (idCounter d)) \<rparr>,
              Return ())"
    with consistent_sent [OF assms, of ns m ps] show ?thesis by simp
  qed (use u in simp_all)
qed

lemma handleMessage_Return:
  assumes "handleMessage d msg = Return (es, d')"
  shows "d' = d \<or> (\<exists>k. d' = d \<lparr> resolvers := (resolvers d)(k := None),
                                  rejectors := (rejectors d)(k := None) \<rparr>)"
  using assms
  by (auto simp: handleMessage_def Let_def
      split: completion.splits if_splits slot.splits jsval.splits listeners.splits)

lemma consistent_message:
  assumes "consistent pre d" and "handleMessage d msg = Return (es, d')"
  shows "consistent (pre @ [Message msg]) d'"
proof -
  have reg: "\<And>name. registered (pre @ [Message msg]) name = registered pre name"
    by (simp add: registered_append)
  from handleMessage_Return [OF assms(2)] show ?thesis
  proof
    assume "d' = d"
    with consistent_unchanged [OF assms(1) reg] show ?thesis by simp
  next
    assume "\<exists>k. d' = d \<lparr> resolvers := (resolvers d)(k := None),
                           rejectors := (rejectors d)(k := None) \<rparr>"
    then obtain k where d': "d' = d \<lparr> resolvers := (resolvers d)(k := None),
                           rejectors := (rejectors d)(k := None) \<rparr>" by blast
    show ?thesis
    proof (rule consistent_step [OF assms(1)])
      show "idCounter d' = idCounter d" and "connection d' = connection d"
        by (simp_all add: d')
      show "resolvers d' = rejectors d'"
        using consistentD(5) [OF assms(1)] by (simp add: d')
      show "\<And>j r. resolvers d' j = Some r \<Longrightarrow> resolvers d j = Some r"
        by (simp add: d' split: if_splits)
      show "\<And>name. \<not> inherited name \<Longrightarrow> domainListeners d' name =
           (if registered (pre @ [Message msg]) name = [] then None
            else Some (Handlers (registered (pre @ [Message msg]) name)))"
        unfolding reg using consistentD(7) [OF assms(1)] by (simp add: d')
    qed
  qed
qed

lemma registerDomainListener_plain:
  assumes "consistent pre d" and "\<not> inherited name"
  shows "registerDomainListener d name h =
           (d \<lparr> domainListeners :=
                  (domainListeners d)(name \<mapsto> Handlers (registered pre name @ [h])) \<rparr>,
            Return ())"
proof -
  from assms have dl: "domainListeners d name =
      (if registered pre name = [] then None else Some (Handlers (registered pre name)))"
    by (simp add: consistent_def)
  from assms(2) have np: "name \<noteq> ''__proto__''"
    using proto_inherited by auto
  show ?thesis
    using assms(2) np dl
    by (cases "registered pre name = []")
       (simp_all add: registerDomainListener_def getSlot_def Let_def)
qed

lemma registerDomainListener_inherited:
  assumes "inherited name"
  shows "\<exists>v. fst (registerDomainListener d name h) = d
             \<or> fst (registerDomainListener d name h) =
                  d \<lparr> domainListeners := (domainListeners d)(name \<mapsto> v) \<rparr>"
  by (auto simp: registerDomainListener_def getSlot_def Let_def
      split: option.splits listeners.splits)

lemma consistent_register:
  assumes "consistent pre d"
  shows "consistent (pre @ [Register name h]) (fst (registerDomainListener d name h))"
proof (cases "inherited name")
  case True
  have reg: "\<And>n. \<not> inherited n \<Longrightarrow>
      registered (pre @ [Register name h]) n = registered pre n"
    using True by (auto simp: registered_append)
  from registerDomainListener_inherited [OF True, of d h]
  obtain v where "fst (registerDomainListener d name h) = d
             \<or> fst (registerDomainListener d name h) =
                  d \<lparr> domainListeners := (domainListeners d)(name \<mapsto> v) \<rparr>" by blast
  then have f: "idCounter (fst (registerDomainListener d name h)) = idCounter d"
    "connection (fst (registerDomainListener d name h)) = connection d"
    "resolvers (fst (registerDomainListener d name h)) = resolvers d"
    "rejectors (fst (registerDomainListener d name h)) = rejectors d"
    and g: "\<And>n. \<not> inherited n \<Longrightarrow>
       domainListeners (fst (registerDomainListener d name h)) n = domainListeners d n"
    using True by auto
  show ?thesis
  proof (rule consistent_step [OF assms])
    show "resolvers (fst (registerDomainListener d name h))
        = rejectors (fst (registerDomainListener d name h))"
      unfolding f by (rule consistentD(5) [OF assms])
    show "\<And>n. \<not> inherited n \<Longrightarrow>
        domainListeners (fst (registerDomainListener d name h)) n =
           (if registered (pre @ [Register name h]) n = [] then None
            else Some (Handlers (registered (pre @ [Register name h]) n)))"
      using consistentD(7) [OF assms] by (simp add: g reg)
  qed (simp_all add: f)
next
  case False
  have e: "fst (registerDomainListener d name h) =
       d \<lparr> domainListeners :=
              (domainListeners d)(name \<mapsto> Handlers (registered pre name @ [h])) \<rparr>"
    by (simp add: registerDomainListener_plain [OF assms False])
  show ?thesis
    unfolding e
  proof (rule consistent_step [OF assms])
    let ?d = "d \<lparr> domainListeners :=
              (domainListeners d)(name \<mapsto> Handlers (registered pre name @ [h])) \<rparr>"
    show "resolvers ?d = rejectors ?d"
      using consistentD(5) [OF assms] by simp
    show "\<And>n. \<not> inherited n \<Longrightarrow> domainListeners ?d n =
           (if registered (pre @ [Register name h]) n = [] then None
            else Some (Handlers (registered (pre @ [Register name h]) n)))"
      using consistentD(7) [OF assms] by (simp add: registered_append)
  qed simp_all
qed

lemma consistent_run:
  "consistent pre d \<Longrightarrow> run d cs = Return d' \<Longrightarrow> consistent (pre @ cs) d'"
proof (induction cs arbitrary: pre d)
  case Nil
  then show ?case by simp
next
  case (Cons c cs)
  have app: "pre @ c # cs = (pre @ [c]) @ cs" by simp
  show ?case
  proof (cases c)
    case (Send ns m ps dl)
    obtain d1 r where s: "send d ns m ps dl = (d1, r)" by (cases "send d ns m ps dl")
    with Cons.prems Send have "run d1 cs = Return d'"
      by (cases r) simp_all
    moreover from consistent_send [OF Cons.prems(1), of ns m ps dl] s
    have "consistent (pre @ [Send ns m ps dl]) d1" by simp
    ultimately show ?thesis
      using Cons.IH [of "pre @ [Send ns m ps dl]" d1] by (simp add: Send)
  next
    case (Message msg)
    have reg: "\<And>name. registered (pre @ [c]) name = registered pre name"
      by (simp add: Message registered_append)
    show ?thesis
    proof (cases "handleMessage d msg")
      case (Return r)
      obtain es d1 where r: "r = (es, d1)" by (cases r)
      with Return Cons.prems Message have "run d1 cs = Return d'" by simp
      from Cons.IH [OF consistent_message [OF Cons.prems(1) Return [unfolded r]] this]
      show ?thesis by (simp add: Message)
    next
      case (Throw e)
      with Cons.prems Message have "run d cs = Return d'" by simp
      from Cons.IH [OF consistent_unchanged [OF Cons.prems(1) reg] this]
      show ?thesis by simp
    next
      case TypeError
      with Cons.prems Message have "run d cs = Return d'" by simp
      from Cons.IH [OF consistent_unchanged [OF Cons.prems(1) reg] this]
      show ?thesis by simp
    next
      case (Builtin n)
      with Cons.prems Message show ?thesis by simp
    qed
  next
    case (Register name h)
    with Cons.prems have "run (fst (registerDomainListener d name h)) cs = Return d'" by simp
    from Cons.IH [OF consistent_register [OF Cons.prems(1)] this]
    show ?thesis by (simp add: Register)
  qed
qed

lemma consistent_reached:
  assumes "Dispatcher p = Return d0" and "run d0 calls = Return d"
  shows "consistent calls d"
  using consistent_run [OF consistent_initial [OF assms(1)] assms(2)] by simp


section \<open>Request ids\<close>

lemma run_twoSends: "run pageDispatcher twoSends = Return pageAfterTwoSends"
  by (simp add: twoSends_def pageAfterTwoSends_def pageDispatcher_def send_def
      validateParams_def getSlot_def missingParams_def paramUndefined_def inherited_def
      objectPrototypeNames_def decimal.simps digitChar_def numeral_2_eq_2
      increment_def maxCounter_def)

text \<open>
  Claim C2, as the code has it. Take any sequence of calls on the dispatcher that the
  constructor built which leaves the counter below \<open>2^53\<close>. The ids handed to the
  connection increase strictly, so none is issued twice, and each lies between 1 and the
  counter. When the connection took every request, they are \<open>1, 2, \<dots>, n\<close> in the order
  of sending, where \<open>n\<close> is the counter and the number of requests sent. Every \<^verbatim>\<open>send\<close> that
  succeeds raises the counter by exactly one and sends the new value as the id.
\<close>

theorem send_ids:
  assumes "Dispatcher p = Return d0" and "run d0 calls = Return d"
    and "idCounter d < maxCounter"
  shows "sorted_wrt (<) (map env_id (connection d))
       \<and> distinct (map env_id (connection d))
       \<and> (\<forall>x\<in>set (map env_id (connection d)). 0 < x \<and> x \<le> idCounter d)
       \<and> (allAccepted calls \<longrightarrow>
            map env_id (connection d) = [1 ..< Suc (idCounter d)]
            \<and> idCounter d = length (connection d))
       \<and> (\<forall>ns m ps d'. send d ns m ps Accepted = (d', Return ()) \<longrightarrow>
             idCounter d' = idCounter d + 1
             \<and> connection d' = connection d @
                 [\<lparr> env_id = idCounter d + 1, env_method = ns @ ''.'' @ m, env_params = ps \<rparr>])"
proof -
  note c = consistent_reached [OF assms(1,2)]
  have inc: "sorted_wrt (<) (map env_id (connection d))"
    by (rule consistentD(2) [OF c assms(3)])
  then have dis: "distinct (map env_id (connection d))"
    by (simp add: strict_sorted_iff)
  have rng: "\<forall>x\<in>set (map env_id (connection d)). 0 < x \<and> x \<le> idCounter d"
    using consistentD(3) [OF c assms(3)] by blast
  have all: "allAccepted calls \<longrightarrow>
            map env_id (connection d) = [1 ..< Suc (idCounter d)]
            \<and> idCounter d = length (connection d)"
  proof
    assume "allAccepted calls"
    from consistentD(4) [OF c assms(3) this]
    have ids: "map env_id (connection d) = [1 ..< Suc (idCounter d)]" .
    then have "length (map env_id (connection d)) = length [1 ..< Suc (idCounter d)]"
      by simp
    then have "idCounter d = length (connection d)" by simp
    with ids show "map env_id (connection d) = [1 ..< Suc (idCounter d)]
            \<and> idCounter d = length (connection d)" by simp
  qed
  have i: "increment (idCounter d) = idCounter d + 1"
    using assms(3) by (simp add: increment_def)
  have step: "\<forall>ns m ps d'. send d ns m ps Accepted = (d', Return ()) \<longrightarrow>
             idCounter d' = idCounter d + 1
             \<and> connection d' = connection d @
                 [\<lparr> env_id = idCounter d + 1, env_method = ns @ ''.'' @ m, env_params = ps \<rparr>]"
    by (auto dest!: send_Return simp: i)
  from inc dis rng all step show ?thesis by blast
qed

theorem send_ids_witness:
  "map env_id (connection pageAfterTwoSends) = [1, 2]
   \<and> idCounter pageAfterTwoSends = 2
   \<and> sorted_wrt (<) (map env_id (connection pageAfterTwoSends))"
proof -
  have 1: "(Dispatcher pageProtocol :: nat dispatcher completion) = Return pageDispatcher"
    by (rule Dispatcher_pageProtocol)
  have 3: "idCounter pageAfterTwoSends < maxCounter"
    by (simp add: pageAfterTwoSends_def maxCounter_def)
  have 4: "allAccepted twoSends"
    by (simp add: twoSends_def)
  from send_ids [OF 1 run_twoSends 3] 4
  have "map env_id (connection pageAfterTwoSends) = [1 ..< Suc (idCounter pageAfterTwoSends)]"
    and "idCounter pageAfterTwoSends = length (connection pageAfterTwoSends)"
    and "sorted_wrt (<) (map env_id (connection pageAfterTwoSends))"
    by blast+
  moreover have "length (connection pageAfterTwoSends) = 2"
    by (simp add: pageAfterTwoSends_def)
  ultimately show ?thesis by (simp add: upt_rec)
qed

text \<open>
  The counter stops at \<open>2^53\<close>. A client that sends \<^verbatim>\<open>Page.reload\<close> over and over, the
  connection taking every request, gets the ids \<open>1, 2, \<dots>\<close> up to \<open>2^53\<close> and then \<open>2^53\<close>
  again.
\<close>

lemma run_reloads:
  assumes "parameterMap d = parameterMap pageDispatcher" and "idCounter d \<le> maxCounter"
  shows "\<exists>d'. run d (replicate n (Send ''Page'' ''reload'' [] Accepted)) = Return d'
           \<and> idCounter d' = min (idCounter d + n) maxCounter
           \<and> map env_id (connection d') =
               map env_id (connection d) @ map (\<lambda>j. min (idCounter d + j) maxCounter) [1 ..< Suc n]"
  using assms
proof (induction n arbitrary: d)
  case 0
  then show ?case by simp
next
  case (Suc n)
  let ?d1 = "d \<lparr> idCounter := increment (idCounter d),
                  connection := connection d @
                    [\<lparr> env_id = increment (idCounter d), env_method = ''Page'' @ ''.'' @ ''reload'',
                      env_params = [] \<rparr>],
                  resolvers := (resolvers d)
                    (decimal (increment (idCounter d)) \<mapsto> increment (idCounter d)),
                  rejectors := (rejectors d)
                    (decimal (increment (idCounter d)) \<mapsto> increment (idCounter d)) \<rparr>"
  have v: "validateParams d ''Page'' ''reload'' [] = Return (Num 0)"
    by (simp add: validateParams_def getSlot_def Suc.prems(1) pageDispatcher_def)
  then have s: "send d ''Page'' ''reload'' [] Accepted = (?d1, Return ())"
    by (simp add: send_def Let_def)
  have i: "increment (idCounter d) = min (idCounter d + 1) maxCounter"
    using Suc.prems(2) by (simp add: increment_def)
  have p1: "parameterMap ?d1 = parameterMap pageDispatcher"
    using Suc.prems(1) by simp
  have b1: "idCounter ?d1 \<le> maxCounter"
    by (simp add: i)
  from Suc.IH [OF p1 b1] obtain d' where
    r: "run ?d1 (replicate n (Send ''Page'' ''reload'' [] Accepted)) = Return d'"
    and c: "idCounter d' = min (idCounter ?d1 + n) maxCounter"
    and e: "map env_id (connection d') =
               map env_id (connection ?d1)
               @ map (\<lambda>j. min (idCounter ?d1 + j) maxCounter) [1 ..< Suc n]"
    by blast
  have r': "run d (replicate (Suc n) (Send ''Page'' ''reload'' [] Accepted)) = Return d'"
    using s r by simp
  have c': "idCounter d' = min (idCounter d + Suc n) maxCounter"
    using c by (simp add: i)
  have shift: "[1 ..< Suc (Suc n)] = 1 # map Suc [1 ..< Suc n]"
    by (simp add: map_Suc_upt upt_conv_Cons del: upt_Suc)
  have e': "map env_id (connection d') =
               map env_id (connection d)
               @ map (\<lambda>j. min (idCounter d + j) maxCounter) [1 ..< Suc (Suc n)]"
    unfolding e shift by (simp add: i o_def min.assoc [symmetric] del: upt_Suc) (simp add: min_def)
  from r' c' e' show ?case by blast
qed

text \<open>
  Claim C2 fails for a run that reaches the end of the counter: after \<open>2^53 + 1\<close> requests,
  each sent successfully, the last two have gone out with the same id \<open>2^53\<close>.
\<close>

theorem send_ids_repeat_counterexample:
  "(case run pageDispatcher (replicate (Suc maxCounter) (Send ''Page'' ''reload'' [] Accepted)) of
      Return d \<Rightarrow>
        drop (maxCounter - 1) (map env_id (connection d)) = [maxCounter, maxCounter]
        \<and> \<not> distinct (map env_id (connection d))
    | Throw e \<Rightarrow> False
    | TypeError \<Rightarrow> False
    | Builtin n \<Rightarrow> False)"
proof -
  have mc: "0 < maxCounter" by (simp add: maxCounter_def)
  have b: "idCounter pageDispatcher \<le> maxCounter"
    by (simp add: pageDispatcher_def)
  from run_reloads [OF refl b, of "Suc maxCounter"] obtain d where
    r: "run pageDispatcher (replicate (Suc maxCounter) (Send ''Page'' ''reload'' [] Accepted))
          = Return d"
    and e: "map env_id (connection d) =
              map env_id (connection pageDispatcher)
              @ map (\<lambda>j. min (idCounter pageDispatcher + j) maxCounter)
                    [1 ..< Suc (Suc maxCounter)]"
    by blast
  have ids: "map env_id (connection d) = map (\<lambda>j. min j maxCounter) [1 ..< Suc (Suc maxCounter)]"
    unfolding e by (simp add: pageDispatcher_def del: upt_Suc)
  have "drop (maxCounter - 1) [1 ..< Suc (Suc maxCounter)]
          = [1 + (maxCounter - 1) ..< Suc (Suc maxCounter)]"
    by (rule drop_upt)
  also have "1 + (maxCounter - 1) = maxCounter"
    using mc by simp
  also have "[maxCounter ..< Suc (Suc maxCounter)] = [maxCounter, Suc maxCounter]"
    by (simp add: upt_conv_Cons del: upt_Suc)
  finally have "drop (maxCounter - 1) [1 ..< Suc (Suc maxCounter)] = [maxCounter, Suc maxCounter]" .
  then have last2: "drop (maxCounter - 1) (map env_id (connection d)) = [maxCounter, maxCounter]"
    unfolding ids drop_map by simp
  have "\<not> distinct (drop (maxCounter - 1) (map env_id (connection d)))"
    unfolding last2 by simp
  then have nd: "\<not> distinct (map env_id (connection d))"
    using distinct_drop by blast
  from last2 nd show ?thesis unfolding r by simp
qed

text \<open>
  An id is also spent when the request is not delivered: the request that follows a failed
  delivery goes out with the id 2, and no request with the id 1 was ever sent.
\<close>

lemma send_failed_delivery_example:
  "map env_id (connection (fst (send (fst (send pageDispatcher ''Page'' ''reload'' []
       (Failed ''socket closed''))) ''Page'' ''reload'' [] Accepted))) = [2]
   \<and> send pageDispatcher ''Page'' ''reload'' [] (Failed ''socket closed'') =
       (pageDispatcher \<lparr> idCounter := 1 \<rparr>, Throw ''socket closed'')"
  by (simp add: send_def validateParams_def getSlot_def pageDispatcher_def increment_def
      maxCounter_def Let_def)


section \<open>Replies\<close>

text \<open>
  Claim C1, as the code has it. Take a dispatcher after any sequence of calls and an inbound
  message with a truthy \<^verbatim>\<open>id\<close> under whose key a request is pending. Its resolver and its
  rejector are both stored, for the request whose id has that decimal form. The router
  tests \<^verbatim>\<open>message.error\<close> for truthiness. If it is truthy, the one effect of the router is
  to reject that request's promise with the value of \<^verbatim>\<open>error.message\<close>, which is the
  message string when the error is an object that has one; otherwise (no \<^verbatim>\<open>error\<close> field,
  or a falsy one such as \<^verbatim>\<open>null\<close>) the one effect is to resolve it with \<^verbatim>\<open>result\<close>.
  Afterwards neither table holds the key, and routing the same message again has no effect
  and changes nothing.
\<close>

theorem handleMessage_reply:
  assumes "Dispatcher p = Return d0" and "run d0 calls = Return d"
    and "map_of fs ''id'' = Some i" and "truthy i"
    and "toString i = Return k" and "resolvers d k = Some r"
    and "err = (case map_of fs ''error'' of Some v \<Rightarrow> v | None \<Rightarrow> Undefined)"
    and "res = (case map_of fs ''result'' of Some v \<Rightarrow> v | None \<Rightarrow> Undefined)"
    and "d' = d \<lparr> resolvers := (resolvers d)(k := None),
                   rejectors := (rejectors d)(k := None) \<rparr>"
  shows "k = decimal r \<and> rejectors d k = Some r
       \<and> (truthy err \<longrightarrow>
            (\<exists>m. field err ''message'' = Return m
               \<and> handleMessage d (Obj fs) = Return ([Reject r m], d')))
       \<and> (\<forall>es s. err = Obj es \<and> map_of es ''message'' = Some (Str s) \<longrightarrow>
            handleMessage d (Obj fs) = Return ([Reject r (Str s)], d'))
       \<and> (\<not> truthy err \<longrightarrow> handleMessage d (Obj fs) = Return ([Resolve r res], d'))
       \<and> resolvers d' k = None \<and> rejectors d' k = None
       \<and> handleMessage d' (Obj fs) = Return ([], d')"
proof -
  note c = consistent_reached [OF assms(1,2)]
  have eq: "resolvers d = rejectors d"
    by (rule consistentD(5) [OF c])
  have key: "k = decimal r"
    using consistentD(6) [OF c assms(6)] by simp
  from eq assms(6) have rej: "rejectors d k = Some r" by simp
  have ni: "\<not> inherited k"
    unfolding key by (rule decimal_not_inherited)
  have fm: "truthy err \<Longrightarrow> \<exists>m. field err ''message'' = Return m"
    by (cases err) auto
  have rejects: "\<And>m. truthy err \<Longrightarrow> field err ''message'' = Return m \<Longrightarrow>
      handleMessage d (Obj fs) = Return ([Reject r m], d')"
    using rej assms(3,4,5)
    by (simp add: handleMessage_def Let_def getSlot_def assms(7) [symmetric] assms(9))
  have 1: "truthy err \<longrightarrow>
            (\<exists>m. field err ''message'' = Return m
               \<and> handleMessage d (Obj fs) = Return ([Reject r m], d'))"
    using fm rejects by blast
  have 2: "\<forall>es s. err = Obj es \<and> map_of es ''message'' = Some (Str s) \<longrightarrow>
            handleMessage d (Obj fs) = Return ([Reject r (Str s)], d')"
  proof (intro allI impI, elim conjE)
    fix es s assume e: "err = Obj es" and m: "map_of es ''message'' = Some (Str s)"
    then have "truthy err" and "field err ''message'' = Return (Str s)" by simp_all
    then show "handleMessage d (Obj fs) = Return ([Reject r (Str s)], d')"
      by (rule rejects)
  qed
  have 3: "\<not> truthy err \<longrightarrow> handleMessage d (Obj fs) = Return ([Resolve r res], d')"
    using assms(3,4,5,6)
    by (simp add: handleMessage_def Let_def getSlot_def assms(7) [symmetric]
        assms(8) [symmetric] assms(9))
  have 4: "resolvers d' k = None \<and> rejectors d' k = None"
    by (simp add: assms(9))
  have d'': "d' \<lparr> resolvers := (resolvers d')(k := None),
                  rejectors := (rejectors d')(k := None) \<rparr> = d'"
    by (simp add: assms(9))
  have 5: "handleMessage d' (Obj fs) = Return ([], d')"
  proof (cases "truthy err")
    case True
    then show ?thesis
      using 4 ni assms(3,4,5)
      by (simp add: handleMessage_def Let_def getSlot_def assms(7) [symmetric] d'')
  next
    case False
    then show ?thesis
      using 4 ni assms(3,4,5)
      by (simp add: handleMessage_def Let_def getSlot_def assms(7) [symmetric] d'')
  qed
  from 4 have r4: "resolvers d' k = None" and j4: "rejectors d' k = None" by simp_all
  show ?thesis
    by (intro conjI) (rule key, rule rej, rule 1, rule 2, rule 3, rule r4, rule j4, rule 5)
qed

theorem handleMessage_reply_witness:
  "handleMessage pageAfterTwoSends
       (Obj [(''id'', Num 2), (''result'', Obj [(''frameId'', Str ''F1'')])]) =
     Return ([Resolve 2 (Obj [(''frameId'', Str ''F1'')])],
             pageAfterTwoSends \<lparr> resolvers := [''1'' \<mapsto> 1], rejectors := [''1'' \<mapsto> 1] \<rparr>)
   \<and> handleMessage (pageAfterTwoSends \<lparr> resolvers := [''1'' \<mapsto> 1], rejectors := [''1'' \<mapsto> 1] \<rparr>)
       (Obj [(''id'', Num 2), (''result'', Obj [(''frameId'', Str ''F1'')])]) =
     Return ([], pageAfterTwoSends \<lparr> resolvers := [''1'' \<mapsto> 1], rejectors := [''1'' \<mapsto> 1] \<rparr>)
   \<and> handleMessage pageAfterTwoSends
       (Obj [(''id'', Num 1), (''error'', Obj [(''message'', Str ''boom'')])]) =
     Return ([Reject 1 (Str ''boom'')],
             pageAfterTwoSends \<lparr> resolvers := [''2'' \<mapsto> 2], rejectors := [''2'' \<mapsto> 2] \<rparr>)"
proof -
  have 1: "(Dispatcher pageProtocol :: nat dispatcher completion) = Return pageDispatcher"
    by (rule Dispatcher_pageProtocol)
  have k2: "toString (Num 2) = Return ''2''" and k1: "toString (Num 1) = Return ''1''"
    by (simp_all add: decimal.simps digitChar_def maxCounter_def)
  have u2: "pageAfterTwoSends \<lparr> resolvers := (resolvers pageAfterTwoSends)(''2'' := None),
                rejectors := (rejectors pageAfterTwoSends)(''2'' := None) \<rparr>
          = pageAfterTwoSends \<lparr> resolvers := [''1'' \<mapsto> 1], rejectors := [''1'' \<mapsto> 1] \<rparr>"
    by (simp add: pageAfterTwoSends_def fun_upd_twist)
  have u1: "pageAfterTwoSends \<lparr> resolvers := (resolvers pageAfterTwoSends)(''1'' := None),
                rejectors := (rejectors pageAfterTwoSends)(''1'' := None) \<rparr>
          = pageAfterTwoSends \<lparr> resolvers := [''2'' \<mapsto> 2], rejectors := [''2'' \<mapsto> 2] \<rparr>"
    by (simp add: pageAfterTwoSends_def)
  have a3: "map_of [(''id'', Num 2), (''result'', Obj [(''frameId'', Str ''F1'')])] ''id'' = Some (Num 2)"
    by simp
  have b3: "map_of [(''id'', Num 1), (''error'', Obj [(''message'', Str ''boom'')])] ''id'' = Some (Num 1)"
    by simp
  have a6: "resolvers pageAfterTwoSends ''2'' = Some 2"
    by (simp add: pageAfterTwoSends_def)
  have b6: "resolvers pageAfterTwoSends ''1'' = Some 1"
    by (simp add: pageAfterTwoSends_def)
  have t2: "truthy (Num 2)" and t1: "truthy (Num 1)" by simp_all
  from handleMessage_reply [OF 1 run_twoSends a3 t2 k2 a6 refl refl refl]
    handleMessage_reply [OF 1 run_twoSends b3 t1 k1 b6 refl refl refl]
  show ?thesis
    unfolding u1 u2 by simp
qed

text \<open>
  Claim C1 fails where it takes the presence of an \<^verbatim>\<open>error\<close> field for the test: the code
  tests \<^verbatim>\<open>if (message.error)\<close>. A reply to the pending request 1 that carries
  \<^verbatim>\<open>"error": null\<close> beside its \<^verbatim>\<open>result\<close> resolves the promise, and a reply whose error
  object has no \<^verbatim>\<open>message\<close> rejects it with \<^verbatim>\<open>undefined\<close>, not with a message string.
\<close>

theorem handleMessage_reply_null_error_counterexample:
  "handleMessage pageAfterTwoSends
       (Obj [(''id'', Num 1), (''error'', Null), (''result'', Num 5)]) =
     Return ([Resolve 1 (Num 5)],
             pageAfterTwoSends \<lparr> resolvers := [''2'' \<mapsto> 2], rejectors := [''2'' \<mapsto> 2] \<rparr>)
   \<and> handleMessage pageAfterTwoSends
       (Obj [(''id'', Num 1), (''error'', Obj [(''code'', Num 7)])]) =
     Return ([Reject 1 Undefined],
             pageAfterTwoSends \<lparr> resolvers := [''2'' \<mapsto> 2], rejectors := [''2'' \<mapsto> 2] \<rparr>)"
  by (simp add: handleMessage_def pageAfterTwoSends_def getSlot_def Let_def decimal.simps
      digitChar_def maxCounter_def)


section \<open>Events\<close>

lemma indexOf_absent: "c \<notin> set s \<Longrightarrow> indexOf s c = - 1"
  by (induction s) auto

lemma indexOf_first: "c \<notin> set s \<Longrightarrow> indexOf (s @ c # t) c = int (length s)"
  by (induction s) (auto simp: Let_def)

lemma substr_undotted:
  assumes "CHR ''.'' \<notin> set m"
  shows "substr m 0 (indexOf m CHR ''.'') = []"
    and "substrFrom m (indexOf m CHR ''.'' + 1) = m"
  using assms by (simp_all add: indexOf_absent substr_def substrFrom_def Let_def)

lemma substr_dotted:
  assumes "CHR ''.'' \<notin> set D"
  shows "substr (D @ ''.'' @ n) 0 (indexOf (D @ ''.'' @ n) CHR ''.'') = D"
    and "substrFrom (D @ ''.'' @ n) (indexOf (D @ ''.'' @ n) CHR ''.'' + 1) = n"
proof -
  have i: "indexOf (D @ ''.'' @ n) CHR ''.'' = int (length D)"
    using indexOf_first [OF assms, of n] by simp
  show "substr (D @ ''.'' @ n) 0 (indexOf (D @ ''.'' @ n) CHR ''.'') = D"
    unfolding i by (simp add: substr_def Let_def)
  have "nat (min (int (length D) + 1) (int (length D) + 1 + int (length n))) = Suc (length D)"
    by simp
  then show "substrFrom (D @ ''.'' @ n) (indexOf (D @ ''.'' @ n) CHR ''.'' + 1) = n"
    unfolding i by (simp add: substr_def substrFrom_def Let_def)
qed

lemma handleMessage_event:
  assumes "consistent calls d"
    and "\<not> truthy (case map_of fs ''id'' of Some v \<Rightarrow> v | None \<Rightarrow> Undefined)"
    and "map_of fs ''method'' = Some (Str m)"
    and "\<not> inherited (substr m 0 (indexOf m CHR ''.''))"
  shows "handleMessage d (Obj fs) =
           Return (map (\<lambda>h. Invoke h (substrFrom m (indexOf m CHR ''.'' + 1))
                               (case map_of fs ''params'' of Some v \<Rightarrow> v | None \<Rightarrow> Undefined))
                       (registered calls (substr m 0 (indexOf m CHR ''.''))),
                   d)"
proof -
  from assms(1,4) have dl: "domainListeners d (substr m 0 (indexOf m CHR ''.'')) =
      (if registered calls (substr m 0 (indexOf m CHR ''.'')) = [] then None
       else Some (Handlers (registered calls (substr m 0 (indexOf m CHR ''.'')))))"
    by (simp add: consistent_def)
  show ?thesis
    using assms(2,3,4) dl
    by (cases "registered calls (substr m 0 (indexOf m CHR ''.'')) = []")
       (simp_all add: handleMessage_def Let_def getSlot_def)
qed

lemma run_pageCalls: "run pageDispatcher pageCalls = Return pageWithListeners"
  by (simp add: pageCalls_def pageWithListeners_def pageDispatcher_def
      registerDomainListener_def getSlot_def inherited_def objectPrototypeNames_def Let_def)

text \<open>
  Events for a domain whose name is not inherited reach exactly its handlers. Take a
  dispatcher after any sequence of calls and an inbound
  message with a falsy \<^verbatim>\<open>id\<close> and the method \<^verbatim>\<open><Domain>.<name>\<close>, where the domain, the
  part before the first dot, is not a name inherited from \<^verbatim>\<open>Object.prototype\<close>. The router
  calls the handlers that the calls registered for the domain, each once, in the order of
  registration, with the name and the message's \<^verbatim>\<open>params\<close>, and nothing else; with no
  handler registered for the domain it calls nothing and returns.
\<close>

lemma handleMessage_event_listeners:
  assumes "Dispatcher p = Return d0" and "run d0 calls = Return d"
    and "\<not> truthy (case map_of fs ''id'' of Some v \<Rightarrow> v | None \<Rightarrow> Undefined)"
    and "map_of fs ''method'' = Some (Str (D @ ''.'' @ name))"
    and "CHR ''.'' \<notin> set D" and "\<not> inherited D"
    and "ps = (case map_of fs ''params'' of Some v \<Rightarrow> v | None \<Rightarrow> Undefined)"
  shows "handleMessage d (Obj fs) = Return (map (\<lambda>h. Invoke h name ps) (registered calls D), d)"
proof -
  note split = substr_dotted [OF assms(5), of name]
  have ni: "\<not> inherited (substr (D @ ''.'' @ name) 0 (indexOf (D @ ''.'' @ name) CHR ''.''))"
    unfolding split by (rule assms(6))
  from handleMessage_event [OF consistent_reached [OF assms(1,2)] assms(3,4) ni]
  show ?thesis unfolding split assms(7) .
qed

lemma handleMessage_event_listeners_example:
  "handleMessage pageWithListeners
       (Obj [(''method'', Str ''Page.loaded''), (''params'', Obj [(''frameId'', Str ''F1'')])]) =
     Return ([Invoke 10 ''loaded'' (Obj [(''frameId'', Str ''F1'')]),
              Invoke 20 ''loaded'' (Obj [(''frameId'', Str ''F1'')])],
             pageWithListeners)"
proof -
  have 1: "(Dispatcher pageProtocol :: nat dispatcher completion) = Return pageDispatcher"
    by (rule Dispatcher_pageProtocol)
  have 3: "\<not> truthy (case map_of [(''method'', Str ''Page.loaded''),
                 (''params'', Obj [(''frameId'', Str ''F1'')])] ''id''
               of Some v \<Rightarrow> v | None \<Rightarrow> Undefined)"
    by simp
  have 4: "map_of [(''method'', Str ''Page.loaded''),
                 (''params'', Obj [(''frameId'', Str ''F1'')])] ''method''
           = Some (Str (''Page'' @ ''.'' @ ''loaded''))"
    by simp
  have 5: "CHR ''.'' \<notin> set ''Page''" by simp
  have 6: "\<not> inherited ''Page''"
    by (simp add: inherited_def objectPrototypeNames_def)
  from handleMessage_event_listeners [OF 1 run_pageCalls 3 4 5 6 refl]
  show ?thesis by (simp add: pageCalls_def)
qed

text \<open>
  Claim C6 says that an event for a domain without a registered listener calls no listener
  and raises no error. The guard \<^verbatim>\<open>if (this._domainListeners[domain])\<close> misses the names
  that a plain object inherits: no handler is registered for \<^verbatim>\<open>constructor\<close>, but
  \<^verbatim>\<open>this._domainListeners['constructor']\<close> is the inherited function, which is truthy and
  has no \<^verbatim>\<open>forEach\<close>, and the router throws.
\<close>

theorem handleMessage_inherited_domain_throws:
  "registered pageCalls ''constructor'' = []
   \<and> handleMessage pageWithListeners
         (Obj [(''method'', Str ''constructor.changed''), (''params'', Obj [])]) = TypeError"
  by (simp add: pageCalls_def handleMessage_def pageWithListeners_def substr_def
      substrFrom_def getSlot_def inherited_def objectPrototypeNames_def Let_def)

text \<open>
  Claim C9. For an inbound message with a falsy \<^verbatim>\<open>id\<close> whose method is a string without a
  dot, \<^verbatim>\<open>indexOf\<close> is \<open>-1\<close>, the derived domain is the empty string and the derived name is
  the whole method: the router calls exactly the handlers registered under the empty name,
  in order, with the method as the event name.
\<close>

theorem handleMessage_undotted:
  assumes "Dispatcher p = Return d0" and "run d0 calls = Return d"
    and "\<not> truthy (case map_of fs ''id'' of Some v \<Rightarrow> v | None \<Rightarrow> Undefined)"
    and "map_of fs ''method'' = Some (Str m)"
    and "CHR ''.'' \<notin> set m"
    and "ps = (case map_of fs ''params'' of Some v \<Rightarrow> v | None \<Rightarrow> Undefined)"
  shows "substr m 0 (indexOf m CHR ''.'') = []
       \<and> substrFrom m (indexOf m CHR ''.'' + 1) = m
       \<and> handleMessage d (Obj fs) = Return (map (\<lambda>h. Invoke h m ps) (registered calls []), d)"
proof -
  note split = substr_undotted [OF assms(5)]
  have e: "\<not> inherited []"
    by (simp add: inherited_def objectPrototypeNames_def)
  then have ni: "\<not> inherited (substr m 0 (indexOf m CHR ''.''))"
    unfolding split .
  from handleMessage_event [OF consistent_reached [OF assms(1,2)] assms(3,4) ni]
  have "handleMessage d (Obj fs) = Return (map (\<lambda>h. Invoke h m ps) (registered calls []), d)"
    unfolding split assms(6) .
  with split show ?thesis by simp
qed

theorem handleMessage_undotted_witness:
  "substr ''ping'' 0 (indexOf ''ping'' CHR ''.'') = []
   \<and> substrFrom ''ping'' (indexOf ''ping'' CHR ''.'' + 1) = ''ping''
   \<and> handleMessage pageWithListeners (Obj [(''method'', Str ''ping''), (''params'', Num 5)]) =
       Return ([Invoke 30 ''ping'' (Num 5)], pageWithListeners)"
proof -
  have 1: "(Dispatcher pageProtocol :: nat dispatcher completion) = Return pageDispatcher"
    by (rule Dispatcher_pageProtocol)
  have 3: "\<not> truthy (case map_of [(''method'', Str ''ping''), (''params'', Num 5)] ''id''
               of Some v \<Rightarrow> v | None \<Rightarrow> Undefined)"
    by simp
  have 4: "map_of [(''method'', Str ''ping''), (''params'', Num 5)] ''method'' = Some (Str ''ping'')"
    by simp
  have 5: "CHR ''.'' \<notin> set ''ping''" by simp
  from handleMessage_undotted [OF 1 run_pageCalls 3 4 5 refl]
  show ?thesis by (simp add: pageCalls_def)
qed

section \<open>Registration\<close>

text \<open>
  Registration under a name that is not inherited. \<^verbatim>\<open>registerDomainListener\<close> reads
  nothing but the registry:
  for every name that is not inherited from \<^verbatim>\<open>Object.prototype\<close>, whether the protocol
  definition has a domain of that name or not, the call returns and the name's sequence is
  the handlers registered before followed by the new one; from then on the router calls the
  new handler, after the earlier ones, for every event whose derived domain is that name.
\<close>

lemma registerDomainListener_appends:
  assumes "Dispatcher p = Return d0" and "run d0 calls = Return d"
    and "\<not> inherited name"
    and "d' = d \<lparr> domainListeners :=
                    (domainListeners d)(name \<mapsto> Handlers (registered calls name @ [h])) \<rparr>"
  shows "registerDomainListener d name h = (d', Return ())
       \<and> (\<forall>fs m. \<not> truthy (case map_of fs ''id'' of Some v \<Rightarrow> v | None \<Rightarrow> Undefined)
             \<and> map_of fs ''method'' = Some (Str m)
             \<and> substr m 0 (indexOf m CHR ''.'') = name \<longrightarrow>
             handleMessage d' (Obj fs) =
               Return (map (\<lambda>g. Invoke g (substrFrom m (indexOf m CHR ''.'' + 1))
                                   (case map_of fs ''params'' of Some v \<Rightarrow> v | None \<Rightarrow> Undefined))
                           (registered calls name @ [h]),
                       d'))"
proof -
  note c = consistent_reached [OF assms(1,2)]
  have r: "registerDomainListener d name h = (d', Return ())"
    unfolding assms(4) by (rule registerDomainListener_plain [OF c assms(3)])
  from consistent_register [OF c, of name h] r
  have c': "consistent (calls @ [Register name h]) d'" by simp
  have reg: "registered (calls @ [Register name h]) name = registered calls name @ [h]"
    by (simp add: registered_append)
  have ev: "\<forall>fs m. \<not> truthy (case map_of fs ''id'' of Some v \<Rightarrow> v | None \<Rightarrow> Undefined)
             \<and> map_of fs ''method'' = Some (Str m)
             \<and> substr m 0 (indexOf m CHR ''.'') = name \<longrightarrow>
             handleMessage d' (Obj fs) =
               Return (map (\<lambda>g. Invoke g (substrFrom m (indexOf m CHR ''.'' + 1))
                                   (case map_of fs ''params'' of Some v \<Rightarrow> v | None \<Rightarrow> Undefined))
                           (registered calls name @ [h]),
                       d')"
  proof (intro allI impI, elim conjE)
    fix fs m
    assume f: "\<not> truthy (case map_of fs ''id'' of Some v \<Rightarrow> v | None \<Rightarrow> Undefined)"
      and me: "map_of fs ''method'' = Some (Str m)"
      and dom: "substr m 0 (indexOf m CHR ''.'') = name"
    have ni: "\<not> inherited (substr m 0 (indexOf m CHR ''.''))"
      unfolding dom by (rule assms(3))
    from handleMessage_event [OF c' f me ni]
    show "handleMessage d' (Obj fs) =
               Return (map (\<lambda>g. Invoke g (substrFrom m (indexOf m CHR ''.'' + 1))
                                   (case map_of fs ''params'' of Some v \<Rightarrow> v | None \<Rightarrow> Undefined))
                           (registered calls name @ [h]),
                       d')"
      unfolding dom reg .
  qed
  from r ev show ?thesis by blast
qed

lemma registerDomainListener_appends_example:
  "registerDomainListener pageWithListeners ''Unknown'' 40 =
     (pageWithListeners \<lparr> domainListeners :=
         [''Page'' \<mapsto> Handlers [10, 20], [] \<mapsto> Handlers [30], ''Unknown'' \<mapsto> Handlers [40]] \<rparr>,
      Return ())
   \<and> handleMessage
       (pageWithListeners \<lparr> domainListeners :=
         [''Page'' \<mapsto> Handlers [10, 20], [] \<mapsto> Handlers [30], ''Unknown'' \<mapsto> Handlers [40]] \<rparr>)
       (Obj [(''method'', Str ''Unknown.event''), (''params'', Null)]) =
     Return ([Invoke 40 ''event'' Null],
       pageWithListeners \<lparr> domainListeners :=
         [''Page'' \<mapsto> Handlers [10, 20], [] \<mapsto> Handlers [30], ''Unknown'' \<mapsto> Handlers [40]] \<rparr>)"
proof -
  have 1: "(Dispatcher pageProtocol :: nat dispatcher completion) = Return pageDispatcher"
    by (rule Dispatcher_pageProtocol)
  have 3: "\<not> inherited ''Unknown''"
    by (simp add: inherited_def objectPrototypeNames_def)
  have u: "pageWithListeners \<lparr> domainListeners :=
             (domainListeners pageWithListeners)
               (''Unknown'' \<mapsto> Handlers (registered pageCalls ''Unknown'' @ [40])) \<rparr>
         = pageWithListeners \<lparr> domainListeners :=
         [''Page'' \<mapsto> Handlers [10, 20], [] \<mapsto> Handlers [30], ''Unknown'' \<mapsto> Handlers [40]] \<rparr>"
    by (simp add: pageWithListeners_def pageCalls_def)
  have s: "substr ''Unknown.event'' 0 (indexOf ''Unknown.event'' CHR ''.'') = ''Unknown''"
    and t: "substrFrom ''Unknown.event'' (indexOf ''Unknown.event'' CHR ''.'' + 1) = ''event''"
    by (simp_all add: substr_def substrFrom_def Let_def)
  from registerDomainListener_appends [OF 1 run_pageCalls 3 refl, of 40]
  have a: "registerDomainListener pageWithListeners ''Unknown'' 40 =
     (pageWithListeners \<lparr> domainListeners :=
         [''Page'' \<mapsto> Handlers [10, 20], [] \<mapsto> Handlers [30], ''Unknown'' \<mapsto> Handlers [40]] \<rparr>,
      Return ())"
    and b: "\<And>fs m. \<not> truthy (case map_of fs ''id'' of Some v \<Rightarrow> v | None \<Rightarrow> Undefined)
             \<Longrightarrow> map_of fs ''method'' = Some (Str m)
             \<Longrightarrow> substr m 0 (indexOf m CHR ''.'') = ''Unknown'' \<Longrightarrow>
             handleMessage (pageWithListeners \<lparr> domainListeners :=
         [''Page'' \<mapsto> Handlers [10, 20], [] \<mapsto> Handlers [30], ''Unknown'' \<mapsto> Handlers [40]] \<rparr>) (Obj fs) =
               Return (map (\<lambda>g. Invoke g (substrFrom m (indexOf m CHR ''.'' + 1))
                                   (case map_of fs ''params'' of Some v \<Rightarrow> v | None \<Rightarrow> Undefined))
                           (registered pageCalls ''Unknown'' @ [40]),
                       pageWithListeners \<lparr> domainListeners :=
         [''Page'' \<mapsto> Handlers [10, 20], [] \<mapsto> Handlers [30], ''Unknown'' \<mapsto> Handlers [40]] \<rparr>)"
    unfolding u by blast+
  from b [of "[(''method'', Str ''Unknown.event''), (''params'', Null)]" "''Unknown.event''"] s t
  have "handleMessage
       (pageWithListeners \<lparr> domainListeners :=
         [''Page'' \<mapsto> Handlers [10, 20], [] \<mapsto> Handlers [30], ''Unknown'' \<mapsto> Handlers [40]] \<rparr>)
       (Obj [(''method'', Str ''Unknown.event''), (''params'', Null)]) =
     Return ([Invoke 40 ''event'' Null],
       pageWithListeners \<lparr> domainListeners :=
         [''Page'' \<mapsto> Handlers [10, 20], [] \<mapsto> Handlers [30], ''Unknown'' \<mapsto> Handlers [40]] \<rparr>)"
    by (simp add: pageCalls_def)
  with a show ?thesis by simp
qed

text \<open>
  Claim C10 says that the handler is appended to the listener sequence of every name,
  whether the schema has it or not. The default \<^verbatim>\<open>this._domainListeners[name] || []\<close>
  misses the names that a plain object inherits: the first line of
  \<^verbatim>\<open>registerDomainListener\<close> stores the inherited function under \<^verbatim>\<open>constructor\<close>, the
  second finds no \<^verbatim>\<open>push\<close> on it and throws; no handler is appended.
\<close>

theorem registerDomainListener_inherited_throws:
  "registerDomainListener pageDispatcher ''constructor'' (40::nat) =
     (pageDispatcher \<lparr> domainListeners := [''constructor'' \<mapsto> Member ''constructor''] \<rparr>,
      TypeError)"
  by (simp add: registerDomainListener_def getSlot_def inherited_def objectPrototypeNames_def
      pageDispatcher_def Let_def)


section \<open>What the router tolerates\<close>

text \<open>
  Claim C7, as the code has it. On a dispatcher after any sequence of calls, the router
  returns for every message object with a truthy \<^verbatim>\<open>id\<close> that converts to a property key
  which is not a name inherited from \<^verbatim>\<open>Object.prototype\<close>, and for every message object
  with a falsy \<^verbatim>\<open>id\<close> and a string \<^verbatim>\<open>method\<close> whose derived domain is not such a name. A
  reply whose id matches no pending request, and an event for a domain without handlers,
  known to the protocol or not, have no effect and change nothing.
\<close>

theorem handleMessage_tolerant:
  assumes "Dispatcher p = Return d0" and "run d0 calls = Return d"
    and "i = (case map_of fs ''id'' of Some v \<Rightarrow> v | None \<Rightarrow> Undefined)"
    and "D = substr m 0 (indexOf m CHR ''.'')"
  shows "(truthy i \<and> toString i = Return k \<and> \<not> inherited k \<longrightarrow>
            returns (handleMessage d (Obj fs)))
       \<and> (truthy i \<and> toString i = Return k \<and> \<not> inherited k \<and> resolvers d k = None \<longrightarrow>
            handleMessage d (Obj fs) = Return ([], d))
       \<and> (\<not> truthy i \<and> map_of fs ''method'' = Some (Str m) \<and> \<not> inherited D \<longrightarrow>
            returns (handleMessage d (Obj fs)))
       \<and> (\<not> truthy i \<and> map_of fs ''method'' = Some (Str m) \<and> \<not> inherited D
            \<and> registered calls D = [] \<longrightarrow>
            handleMessage d (Obj fs) = Return ([], d))"
proof -
  note c = consistent_reached [OF assms(1,2)]
  have eq: "resolvers d = rejectors d"
    by (rule consistentD(5) [OF c])
  have fm: "\<And>err. truthy err \<Longrightarrow> \<exists>x. field err ''message'' = Return x"
  proof -
    fix err assume "truthy err"
    then show "\<exists>x. field err ''message'' = Return x" by (cases err) auto
  qed
  have 1: "truthy i \<and> toString i = Return k \<and> \<not> inherited k \<longrightarrow>
             returns (handleMessage d (Obj fs))"
  proof
    assume a: "truthy i \<and> toString i = Return k \<and> \<not> inherited k"
    show "returns (handleMessage d (Obj fs))"
    proof (cases "truthy (case map_of fs ''error'' of Some v \<Rightarrow> v | None \<Rightarrow> Undefined)")
      case True
      from fm [OF True] obtain x where
        "field (case map_of fs ''error'' of Some v \<Rightarrow> v | None \<Rightarrow> Undefined) ''message'' = Return x"
        by blast
      with a True show ?thesis
        by (simp add: handleMessage_def Let_def getSlot_def assms(3) [symmetric]
            split: option.splits)
    next
      case False
      with a show ?thesis
        by (simp add: handleMessage_def Let_def getSlot_def assms(3) [symmetric]
            split: option.splits)
    qed
  qed
  have 2: "truthy i \<and> toString i = Return k \<and> \<not> inherited k \<and> resolvers d k = None \<longrightarrow>
            handleMessage d (Obj fs) = Return ([], d)"
  proof
    assume a: "truthy i \<and> toString i = Return k \<and> \<not> inherited k \<and> resolvers d k = None"
    then have n: "resolvers d k = None" "rejectors d k = None"
      using eq by simp_all
    then have u: "(resolvers d)(k := None) = resolvers d"
      "(rejectors d)(k := None) = rejectors d"
      by (simp_all add: fun_upd_idem_iff)
    from a n show "handleMessage d (Obj fs) = Return ([], d)"
      by (simp add: handleMessage_def Let_def getSlot_def assms(3) [symmetric] u)
  qed
  have ev: "\<not> truthy i \<and> map_of fs ''method'' = Some (Str m) \<and> \<not> inherited D \<Longrightarrow>
      handleMessage d (Obj fs) =
        Return (map (\<lambda>h. Invoke h (substrFrom m (indexOf m CHR ''.'' + 1))
                               (case map_of fs ''params'' of Some v \<Rightarrow> v | None \<Rightarrow> Undefined))
                    (registered calls D), d)"
    using handleMessage_event [OF c, of fs m] unfolding assms(3) assms(4) by blast
  have 3: "\<not> truthy i \<and> map_of fs ''method'' = Some (Str m) \<and> \<not> inherited D \<longrightarrow>
            returns (handleMessage d (Obj fs))"
    using ev by auto
  have 4: "\<not> truthy i \<and> map_of fs ''method'' = Some (Str m) \<and> \<not> inherited D
            \<and> registered calls D = [] \<longrightarrow>
            handleMessage d (Obj fs) = Return ([], d)"
    using ev by auto
  show ?thesis
    by (intro conjI) (rule 1, rule 2, rule 3, rule 4)
qed

theorem handleMessage_tolerant_witness:
  "handleMessage pageWithListeners (Obj [(''id'', Num 7), (''result'', Null)]) =
     Return ([], pageWithListeners)
   \<and> handleMessage pageWithListeners (Obj [(''method'', Str ''Network.requestWillBeSent'')]) =
     Return ([], pageWithListeners)"
proof -
  have 1: "(Dispatcher pageProtocol :: nat dispatcher completion) = Return pageDispatcher"
    by (rule Dispatcher_pageProtocol)
  have k: "toString (Num 7) = Return ''7''"
    by (simp add: decimal.simps digitChar_def maxCounter_def)
  have a: "truthy (Num 7) \<and> \<not> inherited ''7''
           \<and> resolvers pageWithListeners ''7'' = None"
    by (simp add: inherited_def objectPrototypeNames_def pageWithListeners_def pageDispatcher_def)
  have s: "substr ''Network.requestWillBeSent'' 0 (indexOf ''Network.requestWillBeSent'' CHR ''.'')
           = ''Network''"
    by (simp add: substr_def Let_def)
  have b: "\<not> truthy Undefined \<and> \<not> inherited ''Network'' \<and> registered pageCalls ''Network'' = []"
    by (simp add: inherited_def objectPrototypeNames_def pageCalls_def)
  from handleMessage_tolerant [OF 1 run_pageCalls, of "Num 7" "[(''id'', Num 7), (''result'', Null)]"
      "''Network''" "''Network.requestWillBeSent''" "''7''"] a k s
  have x: "handleMessage pageWithListeners (Obj [(''id'', Num 7), (''result'', Null)]) =
     Return ([], pageWithListeners)"
    by simp
  from handleMessage_tolerant [OF 1 run_pageCalls, of Undefined
      "[(''method'', Str ''Network.requestWillBeSent'')]"
      "''Network''" "''Network.requestWillBeSent''" "''7''"] b s
  have y: "handleMessage pageWithListeners (Obj [(''method'', Str ''Network.requestWillBeSent'')]) =
     Return ([], pageWithListeners)"
    by simp
  from x y show ?thesis by simp
qed

text \<open>
  Claim C7 fails for malformed messages: the router has no guard and no handler for
  exceptions. A message object with neither an \<^verbatim>\<open>id\<close> nor a \<^verbatim>\<open>method\<close> makes
  \<^verbatim>\<open>method.indexOf\<close> throw, the message \<^verbatim>\<open>null\<close> makes \<^verbatim>\<open>message.id\<close> throw, and a reply
  whose id is an object with an own \<^verbatim>\<open>toString\<close> property makes the conversion of the id
  to a property key throw.
\<close>

theorem handleMessage_malformed_counterexample:
  "handleMessage pageWithListeners (Obj [(''params'', Obj [])]) = TypeError
   \<and> handleMessage pageWithListeners Null = TypeError
   \<and> handleMessage pageWithListeners
       (Obj [(''id'', Obj [(''toString'', Num 1)]), (''result'', Num 1)]) = TypeError"
  by (simp add: handleMessage_def)


end
